theory Spec2Isabelle
  imports Complex_Main
begin

section \<open>JavaScript numbers\<close>

text \<open>
  A JavaScript \<open>number\<close> is a binary64 floating-point number: a finite value or one of
  the three special values of IEEE 754. The finite numbers are the reals of the form
  \<open>m * 2^k\<close> with \<open>\<bar>m\<bar> < 2^53\<close> and \<open>-1074 \<le> k\<close> below \<open>2^1024\<close>. The sign of zero
  is not modelled: no divisor of the code modelled here can be a negative zero.
\<close>

datatype num = Fin real | PInf | NInf | NaN

abbreviation pow2 :: "int \<Rightarrow> real" where
  "pow2 k \<equiv> 2 powi k"

text \<open>Rounding to the nearest integer, a tie to the even one.\<close>

definition rhe :: "real \<Rightarrow> int" where
  "rhe x = (let f = \<lfloor>x\<rfloor> in
            if x - of_int f < 1 / 2 then f
            else if 1 / 2 < x - of_int f then f + 1
            else if even f then f else f + 1)"

text \<open>
  The exponent of the binade of \<open>x\<close>; numbers below \<open>2^-1022\<close> are subnormal and share
  the spacing of the lowest binade.
\<close>

definition binade :: "real \<Rightarrow> int" where
  "binade x = max \<lfloor>log 2 \<bar>x\<bar>\<rfloor> (- 1022)"

definition overflow_bound :: real where
  "overflow_bound = 2 ^ 1024"

text \<open>
  The rounding of IEEE 754 (round to nearest, ties to even): the real \<open>x\<close> is rounded to
  a multiple of the spacing \<open>2^(e - 52)\<close> of its binade \<open>e\<close>, and a result that reaches
  \<open>2^1024\<close> is an infinity. The operators \<open>+\<close>, \<open>-\<close>, \<open>*\<close>, \<open>/\<close> and \<open>Math.sqrt\<close>
  return the rounding of the exact result; \<open>0/0\<close>, \<open>Infinity - Infinity\<close> and
  \<open>0 * Infinity\<close> are \<open>NaN\<close>, a non-zero finite number divided by zero is an infinity,
  and \<open>NaN\<close> propagates.
\<close>

definition fl :: "real \<Rightarrow> num" where
  "fl x = (if x = 0 then Fin 0 else
     (let q = pow2 (binade x - 52);
          r = q * of_int (rhe (x / q))
      in if overflow_bound \<le> \<bar>r\<bar> then (if 0 < x then PInf else NInf) else Fin r))"

fun num_neg :: "num \<Rightarrow> num" where
  "num_neg (Fin u) = Fin (- u)"
| "num_neg PInf = NInf"
| "num_neg NInf = PInf"
| "num_neg NaN = NaN"

fun num_add :: "num \<Rightarrow> num \<Rightarrow> num" where
  "num_add NaN _ = NaN"
| "num_add _ NaN = NaN"
| "num_add (Fin u) (Fin v) = fl (u + v)"
| "num_add PInf NInf = NaN"
| "num_add NInf PInf = NaN"
| "num_add PInf _ = PInf"
| "num_add _ PInf = PInf"
| "num_add NInf _ = NInf"
| "num_add _ NInf = NInf"

definition num_sub :: "num \<Rightarrow> num \<Rightarrow> num" where
  "num_sub a b = num_add a (num_neg b)"

fun num_mul :: "num \<Rightarrow> num \<Rightarrow> num" where
  "num_mul NaN _ = NaN"
| "num_mul _ NaN = NaN"
| "num_mul (Fin u) (Fin v) = fl (u * v)"
| "num_mul (Fin u) PInf = (if u = 0 then NaN else if 0 < u then PInf else NInf)"
| "num_mul (Fin u) NInf = (if u = 0 then NaN else if 0 < u then NInf else PInf)"
| "num_mul PInf (Fin v) = (if v = 0 then NaN else if 0 < v then PInf else NInf)"
| "num_mul NInf (Fin v) = (if v = 0 then NaN else if 0 < v then NInf else PInf)"
| "num_mul PInf PInf = PInf"
| "num_mul PInf NInf = NInf"
| "num_mul NInf PInf = NInf"
| "num_mul NInf NInf = PInf"

fun num_div :: "num \<Rightarrow> num \<Rightarrow> num" where
  "num_div NaN _ = NaN"
| "num_div _ NaN = NaN"
| "num_div (Fin u) (Fin v) =
     (if v = 0 then (if u = 0 then NaN else if 0 < u then PInf else NInf)
      else fl (u / v))"
| "num_div (Fin u) PInf = Fin 0"
| "num_div (Fin u) NInf = Fin 0"
| "num_div PInf (Fin v) = (if 0 \<le> v then PInf else NInf)"
| "num_div NInf (Fin v) = (if 0 \<le> v then NInf else PInf)"
| "num_div PInf PInf = NaN"
| "num_div PInf NInf = NaN"
| "num_div NInf PInf = NaN"
| "num_div NInf NInf = NaN"

text \<open>The comparison \<open>a > b\<close>: false as soon as one side is \<open>NaN\<close>.\<close>

fun num_gt :: "num \<Rightarrow> num \<Rightarrow> bool" where
  "num_gt NaN _ = False"
| "num_gt _ NaN = False"
| "num_gt (Fin u) (Fin v) = (v < u)"
| "num_gt PInf PInf = False"
| "num_gt PInf _ = True"
| "num_gt NInf _ = False"
| "num_gt (Fin u) PInf = False"
| "num_gt (Fin u) NInf = True"

fun isNaN :: "num \<Rightarrow> bool" where
  "isNaN NaN = True"
| "isNaN _ = False"

fun math_sqrt :: "num \<Rightarrow> num" where
  "math_sqrt (Fin u) = (if u < 0 then NaN else fl (sqrt u))"
| "math_sqrt PInf = PInf"
| "math_sqrt NInf = NaN"
| "math_sqrt NaN = NaN"

text \<open>
  \<open>Math.hypot\<close> and \<open>Math.acos\<close> are functions of the host; they are modelled as
  correctly rounded. For \<open>Math.hypot\<close> an infinite argument wins over \<open>NaN\<close>.
\<close>

fun math_hypot :: "num \<Rightarrow> num \<Rightarrow> num" where
  "math_hypot (Fin u) (Fin v) = fl (sqrt (u * u + v * v))"
| "math_hypot PInf _ = PInf"
| "math_hypot NInf _ = PInf"
| "math_hypot _ PInf = PInf"
| "math_hypot _ NInf = PInf"
| "math_hypot NaN _ = NaN"
| "math_hypot _ NaN = NaN"

fun math_min :: "num \<Rightarrow> num \<Rightarrow> num" where
  "math_min NaN _ = NaN"
| "math_min _ NaN = NaN"
| "math_min (Fin u) (Fin v) = Fin (min u v)"
| "math_min NInf _ = NInf"
| "math_min _ NInf = NInf"
| "math_min PInf b = b"
| "math_min a PInf = a"

fun math_max :: "num \<Rightarrow> num \<Rightarrow> num" where
  "math_max NaN _ = NaN"
| "math_max _ NaN = NaN"
| "math_max (Fin u) (Fin v) = Fin (max u v)"
| "math_max PInf _ = PInf"
| "math_max _ PInf = PInf"
| "math_max NInf b = b"
| "math_max a NInf = a"

fun math_acos :: "num \<Rightarrow> num" where
  "math_acos (Fin u) = (if - 1 \<le> u \<and> u \<le> 1 then fl (arccos u) else NaN)"
| "math_acos _ = NaN"

text \<open>\<open>Math.PI\<close> is the binary64 number nearest to \<open>\<pi>\<close>, 3.141592653589793.\<close>

definition math_PI :: num where
  "math_PI = Fin (884279719003555 / 2 ^ 48)"

text \<open>
  Truthiness of a value of type \<open>number | null\<close>: \<open>null\<close>, zero and \<open>NaN\<close> are falsy.
\<close>

fun truthy :: "num option \<Rightarrow> bool" where
  "truthy None = False"
| "truthy (Some NaN) = False"
| "truthy (Some (Fin u)) = (u \<noteq> 0)"
| "truthy (Some _) = True"

section \<open>The data model of CameraMeasureApp\<close>

text \<open>
  The fields \<open>x\<close>, \<open>y\<close> of \<open>Pt\<close>, \<open>a\<close>, \<open>b\<close>, \<open>id\<close> of \<open>Segment\<close> and \<open>a\<close>, \<open>b\<close>,
  \<open>c\<close>, \<open>id\<close> of \<open>Angle\<close> carry a prefix here. The optional \<open>label\<close> is never set by
  the component and is left out.
\<close>

record pt =
  pt_x :: num
  pt_y :: num

record segment =
  seg_a :: pt
  seg_b :: pt
  seg_id :: string

record angle =
  ang_a :: pt
  ang_b :: pt
  ang_c :: pt
  ang_id :: string

datatype mode = M_select | M_measure | M_calibrate | M_angle

datatype unit_name = U_mm | U_cm | U_in


text \<open>
  The component's state hooks, and the log of the \<open>alert\<close> calls made so far.
\<close>

record app =
  isFrozen :: bool
  mode :: mode
  tempPts :: "pt list"
  segments :: "segment list"
  angles :: "angle list"
  unit :: unit_name
  unitPerPx :: "num option"
  alerts :: "string list"

text \<open>The initial values of the hooks.\<close>

definition initial :: app where
  "initial = \<lparr> isFrozen = False, mode = M_measure, tempPts = [], segments = [],
     angles = [], unit = U_mm, unitPerPx = None, alerts = [] \<rparr>"

subsection \<open>Geometry\<close>

definition dist :: "pt \<Rightarrow> pt \<Rightarrow> num" where
  "dist a b = math_hypot (num_sub (pt_x a) (pt_x b)) (num_sub (pt_y a) (pt_y b))"

definition angleAtVertex :: "pt \<Rightarrow> pt \<Rightarrow> pt \<Rightarrow> num" where
  "angleAtVertex a b c =
     (let abx = num_sub (pt_x a) (pt_x b); aby = num_sub (pt_y a) (pt_y b);
          cbx = num_sub (pt_x c) (pt_x b); cby = num_sub (pt_y c) (pt_y b);
          dot = num_add (num_mul abx cbx) (num_mul aby cby);
          la = math_hypot abx aby;
          lb = math_hypot cbx cby;
          cos = math_max (Fin (- 1)) (math_min (Fin 1) (num_div dot (num_mul la lb)))
      in num_div (num_mul (math_acos cos) (Fin 180)) math_PI)"

definition pxToUnit :: "app \<Rightarrow> num \<Rightarrow> num option" where
  "pxToUnit s px =
     (if \<not> truthy (unitPerPx s) then None
      else Some (num_mul px (the (unitPerPx s))))"

subsection \<open>Freeze, resume, mode switches and clearing\<close>

text \<open>
  \<open>freeze\<close> first runs \<open>snapshotToCanvas\<close>, then sets \<open>isFrozen\<close>. \<open>snapshotToCanvas\<close> returns
  at once without the video or the canvas element; otherwise it gives the base canvas the
  size of the video frame, draws the frame and, with "Bordas" on, runs the edge filter
  modelled below. The canvas is not part of the hooks. On a canvas of width or height 0
  (a video without a frame) \<open>getImageData\<close> raises in the filter: \<open>snapshot_raises\<close> says
  when, and \<open>freeze\<close> then ends with the exception (\<open>None\<close>) before \<open>setIsFrozen\<close>.
\<close>

definition snapshot_raises :: "bool \<Rightarrow> bool \<Rightarrow> nat \<Rightarrow> nat \<Rightarrow> bool" where
  "snapshot_raises has_refs showEdges videoWidth videoHeight =
     (has_refs \<and> showEdges \<and> (videoWidth = 0 \<or> videoHeight = 0))"

definition freeze :: "bool \<Rightarrow> bool \<Rightarrow> nat \<Rightarrow> nat \<Rightarrow> app \<Rightarrow> app option" where
  "freeze has_refs showEdges videoWidth videoHeight s =
     (if snapshot_raises has_refs showEdges videoWidth videoHeight then None
      else Some (s\<lparr>isFrozen := True\<rparr>))"

definition resume :: "app \<Rightarrow> app" where
  "resume s = s\<lparr>isFrozen := False\<rparr>"

definition startCalibrate :: "app \<Rightarrow> app" where
  "startCalibrate s = s\<lparr>mode := M_calibrate, tempPts := []\<rparr>"

definition startMeasure :: "app \<Rightarrow> app" where
  "startMeasure s = s\<lparr>mode := M_measure, tempPts := []\<rparr>"

definition startAngle :: "app \<Rightarrow> app" where
  "startAngle s = s\<lparr>mode := M_angle, tempPts := []\<rparr>"

text \<open>The handler of the button "Limpar medicoes".\<close>

definition clearMeasurements :: "app \<Rightarrow> app" where
  "clearMeasurements s = s\<lparr>segments := [], angles := [], tempPts := []\<rparr>"

definition clearAll :: "app \<Rightarrow> app" where
  "clearAll s = s\<lparr>segments := [], angles := [], tempPts := [], unitPerPx := None\<rparr>"

subsection \<open>Clicks on the overlay\<close>

text \<open>
  What a click takes from its surroundings: the mouse position, the bounding rectangle
  and the size of the overlay canvas, the string returned by \<open>prompt\<close> (\<open>None\<close> when the
  dialogue is cancelled), the host's \<open>parseFloat\<close> and the identifier drawn by
  \<open>crypto.randomUUID\<close>.
\<close>

record click =
  clientX :: num
  clientY :: num
  rect_left :: num
  rect_top :: num
  rect_width :: num
  rect_height :: num
  o_width :: num
  o_height :: num
  prompt_reply :: "string option"
  parseFloat :: "string \<Rightarrow> num"
  randomUUID :: string

definition surface_point :: "click \<Rightarrow> pt" where
  "surface_point e =
     \<lparr> pt_x = num_mul (num_div (num_sub (clientX e) (rect_left e)) (rect_width e)) (o_width e),
       pt_y = num_mul (num_div (num_sub (clientY e) (rect_top e)) (rect_height e)) (o_height e) \<rparr>"

text \<open>The text of the alert; its accented letter is the single character \<open>0xE1\<close>.\<close>

definition invalid_value_msg :: string where
  "invalid_value_msg = ''Valor inv'' @ [CHR 0xE1] @ ''lido''"

text \<open>A string is truthy when it is neither \<open>null\<close> nor empty.\<close>

fun truthy_str :: "string option \<Rightarrow> bool" where
  "truthy_str None = False"
| "truthy_str (Some t) = (t \<noteq> [])"

definition handleOverlayClick :: "click \<Rightarrow> app \<Rightarrow> app" where
  "handleOverlayClick e s =
     (let p = surface_point e in
      if mode s = M_measure then
        (let pts = tempPts s @ [p] in
         if length pts = 2 then
           (let seg = \<lparr> seg_a = pts ! 0, seg_b = pts ! 1, seg_id = randomUUID e \<rparr>
            in s\<lparr>segments := segments s @ [seg], tempPts := []\<rparr>)
         else s\<lparr>tempPts := pts\<rparr>)
      else if mode s = M_calibrate then
        (let pts = tempPts s @ [p] in
         if length pts = 2 then
           (let dx = num_sub (pt_x (pts ! 1)) (pt_x (pts ! 0));
                dy = num_sub (pt_y (pts ! 1)) (pt_y (pts ! 0));
                pix = math_sqrt (num_add (num_mul dx dx) (num_mul dy dy));
                input = prompt_reply e;
                s1 = (if truthy_str input then
                        (let val = parseFloat e (the input) in
                         if \<not> isNaN val \<and> num_gt val (Fin 0)
                         then s\<lparr>unitPerPx := Some (num_div val pix)\<rparr>
                         else s\<lparr>alerts := alerts s @ [invalid_value_msg]\<rparr>)
                      else s)
            in s1\<lparr>tempPts := []\<rparr>)
         else s\<lparr>tempPts := pts\<rparr>)
      else if mode s = M_angle then
        (let pts = tempPts s @ [p] in
         if length pts = 3 then
           (let ang = \<lparr> ang_a = pts ! 0, ang_b = pts ! 1, ang_c = pts ! 2,
                        ang_id = randomUUID e \<rparr>
            in s\<lparr>angles := angles s @ [ang], tempPts := []\<rparr>)
         else s\<lparr>tempPts := pts\<rparr>)
      else s)"

subsection \<open>Exports\<close>

text \<open>
  One entry of the \<open>segments\<close> list of the JSON payload built by \<open>downloadJSON\<close>.
\<close>

record json_segment =
  js_a :: pt
  js_b :: pt
  length_px :: num
  length_unit :: "num option"

definition json_segment_of :: "app \<Rightarrow> segment \<Rightarrow> json_segment" where
  "json_segment_of s g =
     \<lparr> js_a = seg_a g, js_b = seg_b g,
       length_px = dist (seg_a g) (seg_b g),
       length_unit = (if truthy (unitPerPx s)
                      then Some (num_mul (dist (seg_a g) (seg_b g)) (the (unitPerPx s)))
                      else None) \<rparr>"


definition newline :: char where
  "newline = CHR 0x0A"






section \<open>The edge filter\<close>

text \<open>
  The pixels of a canvas, as \<open>getImageData\<close> returns them: \<open>data\<close> holds the bytes
  R, G, B, A of each pixel, row by row, \<open>4 * width * height\<close> of them.
\<close>

record image =
  width :: nat
  height :: nat
  data :: "nat list"

definition wf_image :: "image \<Rightarrow> bool" where
  "wf_image img = (length (data img) = 4 * width img * height img)"

definition gx :: "int list" where
  "gx = [- 1, 0, 1,
         - 2, 0, 2,
         - 1, 0, 1]"

definition gy :: "int list" where
  "gy = [- 1, - 2, - 1,
         0, 0, 0,
         1, 2, 1]"

definition idx :: "int \<Rightarrow> int \<Rightarrow> int \<Rightarrow> int \<Rightarrow> int" where
  "idx w x y c = (y * w + x) * 4 + c"

text \<open>
  Reading an array: an index out of range gives \<open>undefined\<close>, which arithmetic turns into
  \<open>NaN\<close>.
\<close>

definition read_u8 :: "nat list \<Rightarrow> int \<Rightarrow> num" where
  "read_u8 d i = (if 0 \<le> i \<and> i < int (length d) then Fin (real (d ! nat i)) else NaN)"

definition read_kernel :: "int list \<Rightarrow> nat \<Rightarrow> num" where
  "read_kernel g k = (if k < length g then Fin (real_of_int (g ! k)) else NaN)"

text \<open>
  Storing a number in a \<open>Uint8ClampedArray\<close>: clamped to 0..255 and rounded to the nearest
  integer, a tie to the even one; \<open>NaN\<close> is stored as 0.
\<close>

fun toUint8Clamp :: "num \<Rightarrow> nat" where
  "toUint8Clamp NaN = 0"
| "toUint8Clamp PInf = 255"
| "toUint8Clamp NInf = 0"
| "toUint8Clamp (Fin u) =
     (if u \<le> 0 then 0 else if 255 \<le> u then 255
      else (let f = \<lfloor>u\<rfloor> in
            nat (if u - of_int f < 1 / 2 then f
                 else if 1 / 2 < u - of_int f then f + 1
                 else if even f then f else f + 1)))"

text \<open>
  The body of the two inner loops at offset \<open>(i, j)\<close>; the loop state is \<open>(sx, sy, k)\<close>.
\<close>

definition tap :: "image \<Rightarrow> int \<Rightarrow> int \<Rightarrow> int \<Rightarrow> int \<Rightarrow> num \<times> num \<times> nat \<Rightarrow> num \<times> num \<times> nat" where
  "tap img x y j i = (\<lambda>(sx, sy, k).
     (let r = read_u8 (data img) (idx (int (width img)) (x + i) (y + j) 0);
          g = read_u8 (data img) (idx (int (width img)) (x + i) (y + j) 1);
          b = read_u8 (data img) (idx (int (width img)) (x + i) (y + j) 2);
          gray = num_add (num_add (num_mul (fl 0.299) r) (num_mul (fl 0.587) g))
                         (num_mul (fl 0.114) b)
      in (num_add sx (num_mul gray (read_kernel gx k)),
          num_add sy (num_mul gray (read_kernel gy k)),
          k + 1)))"

definition sobel_sums :: "image \<Rightarrow> int \<Rightarrow> int \<Rightarrow> num \<times> num \<times> nat" where
  "sobel_sums img x y =
     fold (\<lambda>j acc. fold (\<lambda>i acc. tap img x y j i acc) [- 1, 0, 1] acc) [- 1, 0, 1]
       (Fin 0, Fin 0, 0)"

definition pixel_value :: "image \<Rightarrow> int \<Rightarrow> int \<Rightarrow> num" where
  "pixel_value img x y =
     (case sobel_sums img x y of (sx, sy, k) \<Rightarrow>
        (let mag = math_sqrt (num_add (num_mul sx sx) (num_mul sy sy))
         in math_max (Fin 0) (math_min (Fin 255) mag)))"

text \<open>
  The body of the loop over \<open>x\<close>: four stores into \<open>out.data\<close>. A store outside the array
  is ignored, as \<open>list_update\<close> does.
\<close>

definition write_pixel :: "image \<Rightarrow> nat \<Rightarrow> nat \<Rightarrow> nat list \<Rightarrow> nat list" where
  "write_pixel img x y out =
     (let v = toUint8Clamp (pixel_value img (int x) (int y));
          w = int (width img)
      in out[nat (idx w (int x) (int y) 0) := v,
             nat (idx w (int x) (int y) 1) := v,
             nat (idx w (int x) (int y) 2) := v,
             nat (idx w (int x) (int y) 3) := 255])"

text \<open>
  \<open>applyEdgeFilter\<close> maps the pixels of the canvas before the call to its pixels after
  the call: \<open>createImageData\<close> gives a buffer of zeros, the loops over
  \<open>y = 1, ..., height - 2\<close> and \<open>x = 1, ..., width - 2\<close> fill it, and \<open>putImageData\<close>
  at \<open>(0, 0)\<close> replaces every pixel of the canvas by the buffer. The canvas has at least
  one pixel: on a canvas of width or height 0 \<open>getImageData\<close> raises (the case
  \<open>snapshot_raises\<close> above).
\<close>

definition applyEdgeFilter :: "image \<Rightarrow> image" where
  "applyEdgeFilter canvas =
     (let img = canvas;
          out0 = replicate (4 * width canvas * height canvas) (0::nat);
          out = fold (\<lambda>y out. fold (\<lambda>x out. write_pixel img x y out)
                                  [1 ..< width canvas - 1] out)
                     [1 ..< height canvas - 1] out0
      in canvas\<lparr>data := out\<rparr>)"

subsection \<open>The reference computation of the edge magnitude\<close>

text \<open>
  Written from the specification of the filter: the byte of channel \<open>c\<close> (0 for R, 1 for
  G, 2 for B, 3 for alpha) of the pixel \<open>(x, y)\<close>, the luminance
  \<open>0.299 R + 0.587 G + 0.114 B\<close> of a pixel, the two 3 by 3 Sobel kernels applied to the luminance of the neighbourhood,
  and the magnitude \<open>sqrt (Gx\<^sup>2 + Gy\<^sup>2)\<close> clamped to \<open>[0, 255]\<close>.
\<close>

definition channel :: "image \<Rightarrow> nat \<Rightarrow> nat \<Rightarrow> nat \<Rightarrow> nat" where
  "channel img x y c = data img ! ((y * width img + x) * 4 + c)"

definition luminance :: "image \<Rightarrow> nat \<Rightarrow> nat \<Rightarrow> real" where
  "luminance img x y =
     0.299 * real (channel img x y 0)
     + 0.587 * real (channel img x y 1)
     + 0.114 * real (channel img x y 2)"

definition sobel_Gx :: "int list list" where
  "sobel_Gx = [[- 1, 0, 1], [- 2, 0, 2], [- 1, 0, 1]]"

definition sobel_Gy :: "int list list" where
  "sobel_Gy = [[- 1, - 2, - 1], [0, 0, 0], [1, 2, 1]]"

definition apply_kernel :: "int list list \<Rightarrow> image \<Rightarrow> nat \<Rightarrow> nat \<Rightarrow> real" where
  "apply_kernel K img x y =
     (\<Sum>j<3. \<Sum>i<3. real_of_int (K ! j ! i) * luminance img (x + i - 1) (y + j - 1))"

text \<open>
  The same with the kernel mirrored in both directions, as a convolution in the strict
  sense has it.
\<close>

definition convolve_kernel :: "int list list \<Rightarrow> image \<Rightarrow> nat \<Rightarrow> nat \<Rightarrow> real" where
  "convolve_kernel K img x y =
     (\<Sum>j<3. \<Sum>i<3. real_of_int (K ! j ! i) * luminance img (x + 1 - i) (y + 1 - j))"

definition reference_magnitude :: "image \<Rightarrow> nat \<Rightarrow> nat \<Rightarrow> real" where
  "reference_magnitude img x y =
     max 0 (min 255 (sqrt ((apply_kernel sobel_Gx img x y)\<^sup>2 + (apply_kernel sobel_Gy img x y)\<^sup>2)))"

text \<open>
  The same computation carried out in binary64: each product and each sum is rounded,
  and the nine terms of a kernel are added row by row, starting from 0.
\<close>

definition luminance64 :: "image \<Rightarrow> nat \<Rightarrow> nat \<Rightarrow> num" where
  "luminance64 img x y =
     num_add (num_add (num_mul (fl 0.299) (Fin (real (channel img x y 0))))
                      (num_mul (fl 0.587) (Fin (real (channel img x y 1)))))
             (num_mul (fl 0.114) (Fin (real (channel img x y 2))))"

definition apply_kernel64 :: "int list list \<Rightarrow> image \<Rightarrow> nat \<Rightarrow> nat \<Rightarrow> num" where
  "apply_kernel64 K img x y =
     foldl (\<lambda>acc (j, i).
              num_add acc (num_mul (luminance64 img (x + i - 1) (y + j - 1))
                                   (Fin (real_of_int (K ! j ! i)))))
           (Fin 0) (List.product [0, 1, 2] [0, 1, 2])"

definition reference_magnitude64 :: "image \<Rightarrow> nat \<Rightarrow> nat \<Rightarrow> num" where
  "reference_magnitude64 img x y =
     (let g1 = apply_kernel64 sobel_Gx img x y; g2 = apply_kernel64 sobel_Gy img x y
      in math_max (Fin 0) (math_min (Fin 255)
           (math_sqrt (num_add (num_mul g1 g1) (num_mul g2 g2)))))"

text \<open>A pixel of the outermost ring of the frame.\<close>

definition border_pixel :: "image \<Rightarrow> nat \<Rightarrow> nat \<Rightarrow> bool" where
  "border_pixel img x y =
     (x < width img \<and> y < height img
      \<and> (x = 0 \<or> y = 0 \<or> x = width img - 1 \<or> y = height img - 1))"

section \<open>Predicates and sample inputs of the statements\<close>

fun is_fin :: "num \<Rightarrow> bool" where
  "is_fin (Fin u) = True"
| "is_fin _ = False"

definition finite_pt :: "pt \<Rightarrow> bool" where
  "finite_pt p = (is_fin (pt_x p) \<and> is_fin (pt_y p))"


text \<open>A number greater than zero, \<open>Infinity\<close> included.\<close>

fun positive :: "num \<Rightarrow> bool" where
  "positive (Fin u) = (0 < u)"
| "positive PInf = True"
| "positive _ = False"

text \<open>
  The values of the host's \<open>parseFloat\<close> and \<open>toFixed\<close> at the arguments the examples
  below use.
\<close>

definition parseFloat_sample :: "string \<Rightarrow> num" where
  "parseFloat_sample t =
     (if t = ''50'' then Fin 50
      else if t = ''Infinity'' then PInf
      else if t = ''0'' then Fin 0
      else if t = ''-3'' then Fin (- 3)
      else if t = ''5e-324'' then Fin (pow2 (- 1074))
      else NaN)"


text \<open>
  A click at \<open>(u, v)\<close> on an overlay of 640 by 480 pixels displayed at its own size, with
  the given reply to the prompt.
\<close>

definition click_at :: "real \<Rightarrow> real \<Rightarrow> string option \<Rightarrow> click" where
  "click_at u v reply =
     \<lparr> clientX = Fin u, clientY = Fin v, rect_left = Fin 0, rect_top = Fin 0,
       rect_width = Fin 640, rect_height = Fin 480, o_width = Fin 640, o_height = Fin 480,
       prompt_reply = reply, parseFloat = parseFloat_sample, randomUUID = ''id'' \<rparr>"

text \<open>The point with the finite coordinates \<open>(u, v)\<close>.\<close>

definition Pt :: "real \<Rightarrow> real \<Rightarrow> pt" where
  "Pt u v = \<lparr> pt_x = Fin u, pt_y = Fin v \<rparr>"

text \<open>A white frame of 3 by 3 pixels.\<close>

definition white3 :: image where
  "white3 = \<lparr> width = 3, height = 3, data = replicate 36 255 \<rparr>"

text \<open>
  A black frame of 3 by 3 pixels whose pixel \<open>(2, 1)\<close> has green 40 and blue 55.
\<close>

definition tie3 :: image where
  "tie3 = \<lparr> width = 3, height = 3,
     data = [0, 0, 0, 255,  0, 0, 0, 255,  0, 0, 0, 255,
             0, 0, 0, 255,  0, 0, 0, 255,  0, 40, 55, 255,
             0, 0, 0, 255,  0, 0, 0, 255,  0, 0, 0, 255] \<rparr>"

section \<open>Properties\<close>

subsection \<open>Rounding\<close>

lemma rhe_eqI: "of_int n - 1 / 2 < x \<Longrightarrow> x < of_int n + 1 / 2 \<Longrightarrow> rhe x = n"
proof -
  assume a: "of_int n - 1 / 2 < x" "x < of_int n + 1 / 2"
  have "\<lfloor>x\<rfloor> = n \<or> \<lfloor>x\<rfloor> = n - 1" using a by linarith
  then show ?thesis
  proof
    assume f: "\<lfloor>x\<rfloor> = n"
    then have "x - of_int n < 1 / 2" using a by linarith
    then show ?thesis by (simp add: rhe_def f)
  next
    assume f: "\<lfloor>x\<rfloor> = n - 1"
    then have "1 / 2 < x - of_int (n - 1)" using a by simp
    then show ?thesis by (simp add: rhe_def f)
  qed
qed

lemma rhe_of_int [simp]: "rhe (of_int n) = n"
  by (rule rhe_eqI) simp_all

lemma rhe_0 [simp]: "rhe 0 = 0"
  using rhe_of_int [of 0] by simp

lemma rhe_error: "\<bar>of_int (rhe x) - x\<bar> \<le> 1 / 2"
  unfolding rhe_def Let_def by (simp; linarith)

lemma rhe_mono: "x \<le> y \<Longrightarrow> rhe x \<le> rhe y"
proof (rule ccontr)
  assume xy: "x \<le> y" and "\<not> rhe x \<le> rhe y"
  then have "of_int (rhe y) + 1 \<le> (of_int (rhe x) :: real)" by linarith
  with rhe_error [of x] rhe_error [of y] xy have "x = y" by linarith
  with \<open>\<not> rhe x \<le> rhe y\<close> show False by simp
qed


lemma powr2_int: "(2::real) powr (of_int k) = pow2 k" "(2::real) powr (of_int k + 1) = pow2 (k + 1)"
proof -
  show a: "(2::real) powr (of_int k) = pow2 k" for k by (simp add: powr_real_of_int')
  show "(2::real) powr (of_int k + 1) = pow2 (k + 1)" using a [of "k + 1"] by simp
qed

lemma log2_bounds:
  assumes "0 < x"
  shows "pow2 \<lfloor>log 2 x\<rfloor> \<le> x" "x < pow2 (\<lfloor>log 2 x\<rfloor> + 1)"
proof -
  have "2 powr of_int \<lfloor>log 2 x\<rfloor> \<le> x \<and> x < 2 powr (of_int \<lfloor>log 2 x\<rfloor> + 1)"
    using floor_log_eq_powr_iff [of x 2 "\<lfloor>log 2 x\<rfloor>"] assms by simp
  then show "pow2 \<lfloor>log 2 x\<rfloor> \<le> x" "x < pow2 (\<lfloor>log 2 x\<rfloor> + 1)"
    by (simp_all only: powr2_int)
qed

lemma floor_log2_eq:
  assumes "pow2 e \<le> x" "x < pow2 (e + 1)"
  shows "\<lfloor>log 2 x\<rfloor> = e"
proof -
  have "0 < pow2 e" by simp
  then have x: "0 < x" using assms(1) by linarith
  have "2 powr of_int e \<le> x \<and> x < 2 powr (of_int e + 1)"
    using assms by (simp only: powr2_int)
  then show ?thesis using floor_log_eq_powr_iff [of x 2 e] x by simp
qed

text \<open>Evaluation of a rounding whose binade is known.\<close>

lemma fl_normal:
  assumes "pow2 e \<le> \<bar>x\<bar>" "\<bar>x\<bar> < pow2 (e + 1)" "- 1022 \<le> e"
  shows "fl x = (if overflow_bound \<le> \<bar>pow2 (e - 52) * of_int (rhe (x / pow2 (e - 52)))\<bar>
                 then (if 0 < x then PInf else NInf)
                 else Fin (pow2 (e - 52) * of_int (rhe (x / pow2 (e - 52)))))"
proof -
  have "0 < pow2 e" by simp
  then have nz: "x \<noteq> 0" using assms(1) by linarith
  have "\<lfloor>log 2 \<bar>x\<bar>\<rfloor> = e" using assms(1,2) by (rule floor_log2_eq)
  then have "binade x = e" using assms(3) by (simp add: binade_def)
  then show ?thesis using nz by (simp add: fl_def Let_def)
qed


lemma pw_a: "pow2 (- 1022) / pow2 (- 1074) = pow2 52"
proof -
  have "pow2 (- 1022 - (- 1074)) = pow2 (- 1022) / pow2 (- 1074)"
    by (rule power_int_diff) simp
  then show ?thesis by simp
qed

lemma pw_b: "pow2 (- 1074) * pow2 52 = pow2 (- 1022)"
proof -
  have "pow2 (- 1074 + 52) = pow2 (- 1074) * pow2 52"
    by (rule power_int_add) simp
  then show ?thesis by simp
qed

lemma pw_c: "pow2 (- 1022) < overflow_bound"
proof -
  have "pow2 (- 1022) \<le> pow2 0" by (rule power_int_increasing) simp_all
  moreover have "(1::real) < 2 ^ 1024" by (rule one_less_power) simp_all
  ultimately show ?thesis by (simp add: overflow_bound_def)
qed

lemma rhe_pow2: "0 \<le> k \<Longrightarrow> of_int (rhe (pow2 k)) = pow2 k"
proof -
  assume "0 \<le> k"
  then have "pow2 k = of_int (2 ^ nat k)" by (simp add: power_int_def)
  then show ?thesis by (metis rhe_of_int)
qed

lemma rhe_abs_le:
  assumes "\<bar>y\<bar> \<le> pow2 k" "0 \<le> k"
  shows "\<bar>of_int (rhe y)\<bar> \<le> pow2 k"
proof -
  have "rhe y \<le> rhe (pow2 k)" using assms(1) by (intro rhe_mono) linarith
  then have u: "of_int (rhe y) \<le> pow2 k"
    using rhe_pow2 [OF assms(2)] by (metis of_int_le_iff)
  have "pow2 k = of_int (2 ^ nat k)" using assms(2) by (simp add: power_int_def)
  then have "rhe (- (pow2 k)) = - (2 ^ nat k)"
    by (metis of_int_minus rhe_of_int)
  moreover have "rhe (- (pow2 k)) \<le> rhe y" using assms(1) by (intro rhe_mono) linarith
  ultimately have "- (2 ^ nat k) \<le> rhe y" by simp
  then have "- (pow2 k) \<le> of_int (rhe y)"
    using \<open>pow2 k = of_int (2 ^ nat k)\<close> by (metis of_int_le_iff of_int_minus)
  with u show ?thesis by (simp add: abs_le_iff)
qed

lemma fl_subnormal:
  assumes "\<bar>x\<bar> < pow2 (- 1022)"
  shows "fl x = Fin (pow2 (- 1074) * of_int (rhe (x / pow2 (- 1074))))"
proof (cases "x = 0")
  case True
  then show ?thesis by (simp add: fl_def)
next
  case False
  then have pos: "0 < \<bar>x\<bar>" by simp
  have "\<lfloor>log 2 \<bar>x\<bar>\<rfloor> < - 1022"
  proof (rule ccontr)
    assume "\<not> \<lfloor>log 2 \<bar>x\<bar>\<rfloor> < - 1022"
    then have "pow2 (- 1022) \<le> pow2 \<lfloor>log 2 \<bar>x\<bar>\<rfloor>"
      by (intro power_int_increasing) simp_all
    also have "\<dots> \<le> \<bar>x\<bar>" using pos by (rule log2_bounds)
    finally show False using assms by simp
  qed
  then have e: "binade x = - 1022" by (simp add: binade_def)
  define n where "n = rhe (x / pow2 (- 1074))"
  have q: "0 < pow2 (- 1074)" by simp
  have "\<bar>x / pow2 (- 1074)\<bar> = \<bar>x\<bar> / pow2 (- 1074)"
    using q by (rule abs_div_pos [symmetric])
  also have "\<dots> \<le> pow2 (- 1022) / pow2 (- 1074)"
    using assms by (intro divide_right_mono) simp_all
  also have "\<dots> = pow2 52" by (rule pw_a)
  finally have "\<bar>of_int n\<bar> \<le> pow2 52"
    unfolding n_def by (rule rhe_abs_le) simp
  then have "pow2 (- 1074) * \<bar>of_int n\<bar> \<le> pow2 (- 1074) * pow2 52"
    by (intro mult_left_mono) simp_all
  also have "\<dots> = pow2 (- 1022)" by (rule pw_b)
  also have "\<dots> < overflow_bound" by (rule pw_c)
  finally have "pow2 (- 1074) * \<bar>real_of_int n\<bar> < overflow_bound" .
  moreover have "\<bar>pow2 (- 1074) * real_of_int n\<bar> = pow2 (- 1074) * \<bar>real_of_int n\<bar>"
    using q by (simp only: abs_mult abs_of_pos)
  ultimately have "\<bar>pow2 (- 1074) * real_of_int n\<bar> < overflow_bound" by (simp only:)
  then have "\<not> overflow_bound \<le> \<bar>pow2 (- 1074) * real_of_int n\<bar>" by simp
  then show ?thesis using False unfolding fl_def Let_def e n_def by simp
qed

lemma binade_ge: "- 1022 \<le> binade x"
  by (simp add: binade_def)

lemma binade_upper: "x \<noteq> 0 \<Longrightarrow> \<bar>x\<bar> < pow2 (binade x + 1)"
proof -
  assume "x \<noteq> 0"
  then have "\<bar>x\<bar> < pow2 (\<lfloor>log 2 \<bar>x\<bar>\<rfloor> + 1)" by (intro log2_bounds) simp
  also have "\<dots> \<le> pow2 (binade x + 1)"
    by (rule power_int_increasing) (simp_all add: binade_def)
  finally show ?thesis .
qed

lemma binade_lower: "x \<noteq> 0 \<Longrightarrow> - 1022 < binade x \<Longrightarrow> pow2 (binade x) \<le> \<bar>x\<bar>"
proof -
  assume "x \<noteq> 0" "- 1022 < binade x"
  then have "binade x = \<lfloor>log 2 \<bar>x\<bar>\<rfloor>" by (simp add: binade_def max_def split: if_splits)
  then show ?thesis using log2_bounds(1) [of "\<bar>x\<bar>"] \<open>x \<noteq> 0\<close> by simp
qed


text \<open>The quotient that is rounded to an integer has fewer than 54 bits.\<close>

lemma scaled_bound:
  assumes "x \<noteq> 0"
  shows "\<bar>x / pow2 (binade x - 52)\<bar> < pow2 53"
proof -
  have q: "0 < pow2 (binade x - 52)" by simp
  have "\<bar>x / pow2 (binade x - 52)\<bar> = \<bar>x\<bar> / pow2 (binade x - 52)"
    using q by (rule abs_div_pos [symmetric])
  also have "\<dots> < pow2 (binade x + 1) / pow2 (binade x - 52)"
    using binade_upper [OF assms] q by (rule divide_strict_right_mono)
  also have "\<dots> = pow2 (binade x + 1 - (binade x - 52))"
    by (rule power_int_diff [symmetric]) simp
  also have "binade x + 1 - (binade x - 52) = 53" by simp
  finally show ?thesis .
qed

lemma fl_abs_le:
  assumes "x \<noteq> 0"
  shows "\<bar>pow2 (binade x - 52) * of_int (rhe (x / pow2 (binade x - 52)))\<bar>
         \<le> pow2 (binade x + 1)"
proof -
  have q: "0 < pow2 (binade x - 52)" by simp
  have "\<bar>of_int (rhe (x / pow2 (binade x - 52)))\<bar> \<le> pow2 53"
    using scaled_bound [OF assms] by (intro rhe_abs_le) simp_all
  then have "pow2 (binade x - 52) * \<bar>of_int (rhe (x / pow2 (binade x - 52)))\<bar>
             \<le> pow2 (binade x - 52) * pow2 53"
    using q by (intro mult_left_mono) simp_all
  also have "\<dots> = pow2 (binade x - 52 + 53)"
    by (rule power_int_add [symmetric]) simp
  also have "binade x - 52 + 53 = binade x + 1" by simp
  finally show ?thesis using q by (simp only: abs_mult abs_of_pos)
qed

text \<open>A number below \<open>2^1023\<close> in magnitude is rounded to a finite number.\<close>

lemma fl_finite:
  assumes "\<bar>x\<bar> < pow2 1023"
  shows "fl x = Fin (pow2 (binade x - 52) * of_int (rhe (x / pow2 (binade x - 52))))"
proof (cases "x = 0")
  case True
  then show ?thesis by (simp add: fl_def)
next
  case False
  have "binade x \<le> 1022"
  proof (rule ccontr)
    assume "\<not> binade x \<le> 1022"
    then have b: "1023 \<le> binade x" by simp
    then have "pow2 1023 \<le> pow2 (binade x)" by (intro power_int_increasing) simp_all
    also have "\<dots> \<le> \<bar>x\<bar>" using False b by (intro binade_lower) simp_all
    finally show False using assms by simp
  qed
  then have "pow2 (binade x + 1) \<le> pow2 1023"
    by (intro power_int_increasing) simp_all
  also have "pow2 1023 < pow2 1024" by (intro power_int_strict_increasing) simp_all
  also have "pow2 1024 = overflow_bound" unfolding overflow_bound_def by (rule power_int_numeral)
  finally have "\<not> overflow_bound \<le> \<bar>pow2 (binade x - 52) * of_int (rhe (x / pow2 (binade x - 52)))\<bar>"
    using fl_abs_le [OF False] by linarith
  then show ?thesis using False unfolding fl_def Let_def by simp
qed


lemma fl_of_Fin:
  assumes "fl x = Fin r"
  shows "r = pow2 (binade x - 52) * of_int (rhe (x / pow2 (binade x - 52)))"
proof (cases "x = 0")
  case True
  then show ?thesis using assms by (simp add: fl_def)
next
  case False
  then show ?thesis using assms unfolding fl_def Let_def by (simp split: if_splits)
qed

text \<open>A number with at most 53 significant bits and an exponent in range is not changed.\<close>

lemma fl_representable:
  assumes "\<bar>m\<bar> < 2 ^ 53" "- 1074 \<le> k" "k \<le> 970"
  shows "fl (pow2 k * of_int m) = Fin (pow2 k * of_int m)"
proof (cases "m = 0")
  case True
  then show ?thesis by (simp add: fl_def)
next
  case False
  define x where "x = pow2 k * of_int m"
  have pk: "0 < pow2 k" by simp
  have x0: "x \<noteq> 0" using False by (simp add: x_def)
  have "\<bar>real_of_int m\<bar> < 2 ^ 53" using assms(1) by (metis of_int_abs of_int_less_numeral_power_cancel_iff)
  then have "\<bar>real_of_int m\<bar> < pow2 53" by simp
  then have "pow2 k * \<bar>real_of_int m\<bar> < pow2 k * pow2 53"
    using pk by (intro mult_strict_left_mono)
  also have "\<dots> = pow2 (k + 53)" by (rule power_int_add [symmetric]) simp
  finally have ax: "\<bar>x\<bar> < pow2 (k + 53)"
    unfolding x_def using pk by (simp only: abs_mult abs_of_pos)
  also have "\<dots> \<le> pow2 1023" using assms(3) by (intro power_int_increasing) simp_all
  finally have fin: "fl x = Fin (pow2 (binade x - 52) * of_int (rhe (x / pow2 (binade x - 52))))"
    by (rule fl_finite)
  have b: "binade x \<le> k + 52"
  proof (rule ccontr)
    assume "\<not> binade x \<le> k + 52"
    then have c: "k + 53 \<le> binade x" by simp
    then have "pow2 (k + 53) \<le> pow2 (binade x)" by (intro power_int_increasing) simp_all
    also have "\<dots> \<le> \<bar>x\<bar>" using x0 c assms(2) by (intro binade_lower) simp_all
    finally show False using ax by simp
  qed
  define d where "d = nat (k - (binade x - 52))"
  define q where "q = pow2 (binade x - 52)"
  have q0: "q \<noteq> 0" by (simp add: q_def)
  have e2: "(binade x - 52) + int d = k" using b by (simp add: d_def)
  have "pow2 ((binade x - 52) + int d) = pow2 (binade x - 52) * pow2 (int d)"
    by (rule power_int_add) simp
  then have "pow2 k = q * 2 ^ d" unfolding e2 q_def by simp
  then have xq: "x = q * of_int (2 ^ d * m)" by (simp add: x_def)
  then have "x / q = of_int (2 ^ d * m)" using q0 by simp
  then have "rhe (x / q) = 2 ^ d * m" by (simp only: rhe_of_int)
  then have "q * of_int (rhe (x / q)) = x" using xq by simp
  then have "fl x = Fin x" using fin unfolding q_def by simp
  then show ?thesis unfolding x_def .
qed

lemma fl_of_int: "\<bar>m\<bar> < 2 ^ 53 \<Longrightarrow> fl (of_int m) = Fin (of_int m)"
  using fl_representable [of m 0] by simp


text \<open>The relative error of a rounding in the normal range is at most \<open>2^-53\<close>.\<close>

lemma fl_rel_error:
  assumes "pow2 (- 1022) \<le> \<bar>x\<bar>" "fl x = Fin r"
  shows "\<bar>r - x\<bar> \<le> pow2 (- 53) * \<bar>x\<bar>"
proof -
  have "0 < pow2 (- 1022)" by simp
  then have x0: "x \<noteq> 0" using assms(1) by linarith
  define q where "q = pow2 (binade x - 52)"
  have q0: "0 < q" by (simp add: q_def)
  have r: "r = q * of_int (rhe (x / q))" unfolding q_def using assms(2) by (rule fl_of_Fin)
  have low: "pow2 (binade x) \<le> \<bar>x\<bar>"
  proof (cases "- 1022 < binade x")
    case True
    then show ?thesis using x0 by (intro binade_lower)
  next
    case False
    then have "binade x = - 1022" using binade_ge [of x] by simp
    then show ?thesis using assms(1) by simp
  qed
  have "r - x = q * (of_int (rhe (x / q)) - x / q)"
    unfolding r using q0 by (simp add: algebra_simps)
  then have "\<bar>r - x\<bar> = q * \<bar>of_int (rhe (x / q)) - x / q\<bar>"
    using q0 by (simp only: abs_mult abs_of_pos)
  also have "\<dots> \<le> q * (1 / 2)" using q0 rhe_error [of "x / q"] by (intro mult_left_mono) simp_all
  also have "\<dots> = pow2 (binade x - 52) * pow2 (- 1)" by (simp add: q_def)
  also have "\<dots> = pow2 (binade x - 52 + (- 1))" by (rule power_int_add [symmetric]) simp
  also have "binade x - 52 + (- 1) = (- 53) + binade x" by simp
  also have "pow2 (- 53 + binade x) = pow2 (- 53) * pow2 (binade x)" by (rule power_int_add) simp
  also have "\<dots> \<le> pow2 (- 53) * \<bar>x\<bar>" using low by (intro mult_left_mono) simp_all
  finally show ?thesis .
qed

lemma binade_eq:
  assumes "pow2 e \<le> \<bar>x\<bar>" "\<bar>x\<bar> < pow2 (e + 1)" "- 1022 \<le> e"
  shows "binade x = e"
proof -
  have "\<lfloor>log 2 \<bar>x\<bar>\<rfloor> = e" using assms(1,2) by (rule floor_log2_eq)
  then show ?thesis using assms(3) by (simp add: binade_def)
qed

text \<open>Evaluation of a rounding from its binade \<open>e\<close> and the rounded integer \<open>n\<close>.\<close>

lemma fl_evalI:
  assumes "pow2 e \<le> \<bar>x\<bar>" "\<bar>x\<bar> < pow2 (e + 1)" "- 1022 \<le> e" "e \<le> 1022"
    and "of_int n - 1 / 2 < x / pow2 (e - 52)" "x / pow2 (e - 52) < of_int n + 1 / 2"
  shows "fl x = Fin (pow2 (e - 52) * of_int n)"
proof -
  have b: "binade x = e" using assms(1,2,3) by (rule binade_eq)
  have "pow2 (e + 1) \<le> pow2 1023" using assms(4) by (intro power_int_increasing) simp_all
  then have "\<bar>x\<bar> < pow2 1023" using assms(2) by linarith
  then have "fl x = Fin (pow2 (binade x - 52) * of_int (rhe (x / pow2 (binade x - 52))))"
    by (rule fl_finite)
  moreover have "rhe (x / pow2 (e - 52)) = n" using assms(5,6) by (rule rhe_eqI)
  ultimately show ?thesis by (simp only: b)
qed

text \<open>The same with the integer left to be computed; it also covers ties.\<close>

lemma fl_eval:
  assumes "pow2 e \<le> \<bar>x\<bar>" "\<bar>x\<bar> < pow2 (e + 1)" "- 1022 \<le> e" "e \<le> 1022"
  shows "fl x = Fin (pow2 (e - 52) * of_int (rhe (x / pow2 (e - 52))))"
proof -
  have b: "binade x = e" using assms(1,2,3) by (rule binade_eq)
  have "pow2 (e + 1) \<le> pow2 1023" using assms(4) by (intro power_int_increasing) simp_all
  then have "\<bar>x\<bar> < pow2 1023" using assms(2) by linarith
  then have "fl x = Fin (pow2 (binade x - 52) * of_int (rhe (x / pow2 (binade x - 52))))"
    by (rule fl_finite)
  then show ?thesis by (simp only: b)
qed

lemma fl_numeral: "numeral k < (2::int) ^ 53 \<Longrightarrow> fl (numeral k) = Fin (numeral k)"
  using fl_of_int [of "numeral k"] by simp

lemma fl_neg_numeral: "numeral k < (2::int) ^ 53 \<Longrightarrow> fl (- numeral k) = Fin (- numeral k)"
  using fl_of_int [of "- numeral k"] by simp

lemma fl_0 [simp]: "fl 0 = Fin 0"
  by (simp add: fl_def)

lemma fl_1 [simp]: "fl 1 = Fin 1"
  using fl_of_int [of 1] by simp


subsection \<open>Helper facts\<close>

lemma sqrt_10000: "sqrt 10000 = (100::real)"
  by (rule real_sqrt_unique) simp_all

text \<open>The clicks of the examples land on the surface points they name.\<close>

lemma scale_0:
  "num_mul (num_div (num_sub (Fin 0) (Fin 0)) (Fin 640)) (Fin 640) = Fin 0"
  "num_mul (num_div (num_sub (Fin 0) (Fin 0)) (Fin 480)) (Fin 480) = Fin 0"
  by (simp_all add: num_sub_def)

lemma scale_100_480:
  "num_mul (num_div (num_sub (Fin 100) (Fin 0)) (Fin 480)) (Fin 480) = Fin 100"
proof -
  have a: "num_sub (Fin 100) (Fin 0) = Fin 100" by (simp add: num_sub_def fl_numeral)
  have b: "num_div (Fin 100) (Fin 480) = Fin (7505999378950827 / 2 ^ 55)"
    using fl_evalI [of "- 3" "100 / 480" 7505999378950827] by simp
  have c: "num_mul (Fin (7505999378950827 / 2 ^ 55)) (Fin 480) = Fin 100"
    using fl_evalI [of 6 "7505999378950827 / 2 ^ 55 * 480" 7036874417766400] by simp
  show ?thesis by (simp only: a b c)
qed

lemma scale_1_640:
  "num_mul (num_div (num_sub (Fin 1) (Fin 0)) (Fin 640)) (Fin 640) = Fin 1"
proof -
  have a: "num_sub (Fin 1) (Fin 0) = Fin 1" by (simp add: num_sub_def)
  have b: "num_div (Fin 1) (Fin 640) = Fin (3602879701896397 / 2 ^ 61)"
    using fl_evalI [of "- 10" "1 / 640" 7205759403792794] by simp
  have c: "num_mul (Fin (3602879701896397 / 2 ^ 61)) (Fin 640) = Fin 1"
    using fl_evalI [of 0 "3602879701896397 / 2 ^ 61 * 640" 4503599627370496] by simp
  show ?thesis by (simp only: a b c)
qed

lemma scale_1_480:
  "num_mul (num_div (num_sub (Fin 1) (Fin 0)) (Fin 480)) (Fin 480) = Fin 1"
proof -
  have a: "num_sub (Fin 1) (Fin 0) = Fin 1" by (simp add: num_sub_def)
  have b: "num_div (Fin 1) (Fin 480) = Fin (4803839602528529 / 2 ^ 61)"
    using fl_evalI [of "- 9" "1 / 480" 4803839602528529] by simp
  have c: "num_mul (Fin (4803839602528529 / 2 ^ 61)) (Fin 480) = Fin 1"
    using fl_evalI [of "- 1" "4803839602528529 / 2 ^ 61 * 480" 9007199254740992] by simp
  show ?thesis by (simp only: a b c)
qed

lemma surface_point_click_at:
  "surface_point (click_at 0 0 r) = Pt 0 0"
  "surface_point (click_at 0 100 r) = Pt 0 100"
  "surface_point (click_at 1 1 r) = Pt 1 1"
  by (simp_all add: surface_point_def click_at_def Pt_def scale_0 scale_100_480 scale_1_640
      scale_1_480)

lemma click_at_fields:
  "prompt_reply (click_at u v r) = r" "parseFloat (click_at u v r) = parseFloat_sample"
  "randomUUID (click_at u v r) = ''id''"
  by (simp_all add: click_at_def)

lemma num_mul_commute: "num_mul a b = num_mul b a"
  by (cases a; cases b) (simp_all add: mult.commute)

lemma positive_iff: "positive v \<longleftrightarrow> \<not> isNaN v \<and> num_gt v (Fin 0)"
  by (cases v) simp_all

lemma finite_ptE:
  assumes "finite_pt p" obtains u v where "p = Pt u v"
proof -
  obtain u where "pt_x p = Fin u" using assms by (cases "pt_x p") (simp_all add: finite_pt_def)
  moreover obtain v where "pt_y p = Fin v" using assms by (cases "pt_y p") (simp_all add: finite_pt_def)
  ultimately have "p = Pt u v" by (simp add: Pt_def)
  then show thesis by (rule that)
qed

lemma finite_pt_Pt: "finite_pt (Pt u v)"
  by (simp add: finite_pt_def Pt_def)



text \<open>
  With a zero vector both the dot product and the product of the lengths are zero or
  \<open>NaN\<close>, and their quotient is \<open>NaN\<close>.
\<close>

lemma zero_times: "num_mul (Fin 0) n = Fin 0 \<or> num_mul (Fin 0) n = NaN"
  by (cases n) simp_all

lemma zero_sum:
  "a = Fin 0 \<or> a = NaN \<Longrightarrow> b = Fin 0 \<or> b = NaN \<Longrightarrow> num_add a b = Fin 0 \<or> num_add a b = NaN"
  by auto

lemma zero_quotient:
  "a = Fin 0 \<or> a = NaN \<Longrightarrow> b = Fin 0 \<or> b = NaN \<Longrightarrow> num_div a b = NaN"
  by auto

lemma clamp_acos_NaN:
  "num_div (num_mul (math_acos (math_max lo (math_min hi NaN))) k) p = NaN"
  by (cases hi; cases lo) simp_all

lemma angle_degenerate_NaN:
  "angleAtVertex (Pt bx by) (Pt bx by) (Pt cx cy) = NaN"
  "angleAtVertex (Pt ax ay) (Pt bx by) (Pt bx by) = NaN"
proof -
  have z: "num_sub (Fin u) (Fin u) = Fin 0" for u by (simp add: num_sub_def)
  have h: "math_hypot (Fin 0) (Fin 0) = Fin 0" by simp
  have q: "num_div (num_add (num_mul (Fin 0) X) (num_mul (Fin 0) Y)) (num_mul (Fin 0) L) = NaN"
    for X Y L
    by (intro zero_quotient zero_sum zero_times)
  show "angleAtVertex (Pt bx by) (Pt bx by) (Pt cx cy) = NaN"
    by (simp add: angleAtVertex_def Let_def Pt_def z h q clamp_acos_NaN del: math_hypot.simps)
  have q': "num_div (num_add (num_mul X (Fin 0)) (num_mul Y (Fin 0))) (num_mul L (Fin 0)) = NaN"
    for X Y L
    using q [of X Y L] by (simp only: num_mul_commute [of _ "Fin 0"])
  show "angleAtVertex (Pt ax ay) (Pt bx by) (Pt bx by) = NaN"
    by (simp add: angleAtVertex_def Let_def Pt_def z h q' clamp_acos_NaN del: math_hypot.simps)
qed

lemma angle_click:
  assumes "mode s = M_angle" "tempPts s = [a, b]"
  shows "handleOverlayClick e s =
    s\<lparr>angles := angles s @ [\<lparr> ang_a = a, ang_b = b, ang_c = surface_point e, ang_id = randomUUID e \<rparr>],
      tempPts := []\<rparr>"
  using assms by (simp add: handleOverlayClick_def Let_def)

lemma calibrate_click:
  assumes "mode s = M_calibrate" "tempPts s = [a]"
  shows "handleOverlayClick e s =
    (let dx = num_sub (pt_x (surface_point e)) (pt_x a);
         dy = num_sub (pt_y (surface_point e)) (pt_y a);
         pix = math_sqrt (num_add (num_mul dx dx) (num_mul dy dy));
         v = parseFloat e (the (prompt_reply e))
     in if \<not> truthy_str (prompt_reply e) then s\<lparr>tempPts := []\<rparr>
        else if positive v then s\<lparr>unitPerPx := Some (num_div v pix), tempPts := []\<rparr>
        else s\<lparr>alerts := alerts s @ [invalid_value_msg], tempPts := []\<rparr>)"
  using assms by (simp add: handleOverlayClick_def Let_def positive_iff)

subsection \<open>Frame state\<close>

text \<open>
  C2 (as amended). The click handler never reads the frame state: on a live frame a click
  does exactly what it does on a frozen one, and it leaves \<open>isFrozen\<close> as it is. So
  entities are created on a live frame too: after \<open>resume\<close>, entering Measure and two
  clicks add the Segment between the two clicked points.
\<close>

theorem click_ignores_frame_state:
  "handleOverlayClick e (s\<lparr>isFrozen := f\<rparr>) = (handleOverlayClick e s)\<lparr>isFrozen := f\<rparr>
   \<and> isFrozen (handleOverlayClick e s) = isFrozen s
   \<and> isFrozen (handleOverlayClick e1 (startMeasure (resume s))) = False
   \<and> segments (handleOverlayClick e2 (handleOverlayClick e1 (startMeasure (resume s))))
       = segments s @ [\<lparr> seg_a = surface_point e1, seg_b = surface_point e2,
                          seg_id = randomUUID e2 \<rparr>]"
  by (simp add: handleOverlayClick_def Let_def startMeasure_def resume_def)

text \<open>
  C2 as stated fails: from the initial state, whose frame is live, two clicks in Measure
  mode create a Segment.
\<close>

theorem live_frame_segment_counterexample:
  "\<not> isFrozen initial \<and>
   segments (handleOverlayClick (click_at 0 100 None)
              (handleOverlayClick (click_at 0 0 None) initial))
     = [\<lparr> seg_a = Pt 0 0, seg_b = Pt 0 100, seg_id = ''id'' \<rparr>]"
  by (simp add: handleOverlayClick_def Let_def initial_def surface_point_click_at click_at_fields)

subsection \<open>Mode switches and clearing\<close>

text \<open>
  C7. Each of the three mode switches empties the pending buffer; and after entering
  Measure, one click, a switch to Angle and three clicks, exactly one Angle has been
  added, made of the three clicks after the switch, and no Segment.
\<close>

theorem mode_switch_clears_pending:
  "tempPts (startMeasure s) = [] \<and> tempPts (startAngle s) = [] \<and>
   tempPts (startCalibrate s) = [] \<and>
   angles (handleOverlayClick e3 (handleOverlayClick e2 (handleOverlayClick e1
      (startAngle (handleOverlayClick e0 (startMeasure s))))))
     = angles s @ [\<lparr> ang_a = surface_point e1, ang_b = surface_point e2,
                     ang_c = surface_point e3, ang_id = randomUUID e3 \<rparr>] \<and>
   segments (handleOverlayClick e3 (handleOverlayClick e2 (handleOverlayClick e1
      (startAngle (handleOverlayClick e0 (startMeasure s))))))
     = segments s"
  by (simp add: handleOverlayClick_def Let_def startMeasure_def startAngle_def
      startCalibrate_def)

text \<open>
  C10. Clearing the measurements empties the segments, the angles and the pending points
  and keeps scale, unit, mode and frame state; resetting all does the same and sets the
  scale to \<open>null\<close>.
\<close>

theorem clear_keeps_calibration:
  "segments (clearMeasurements s) = [] \<and> angles (clearMeasurements s) = [] \<and>
   tempPts (clearMeasurements s) = [] \<and>
   unitPerPx (clearMeasurements s) = unitPerPx s \<and> unit (clearMeasurements s) = unit s \<and>
   mode (clearMeasurements s) = mode s \<and> isFrozen (clearMeasurements s) = isFrozen s \<and>
   clearAll s = (clearMeasurements s)\<lparr>unitPerPx := None\<rparr>"
  by (simp add: clearMeasurements_def clearAll_def)

subsection \<open>Angles\<close>

text \<open>
  C1 (as amended). There is no \<open>DegenerateAngle\<close> failure: the third click in Angle mode
  creates the Angle and empties the pending buffer also when the vertex coincides with
  an endpoint, no alert is raised, and for such finite points \<open>angleAtVertex\<close> returns
  \<open>NaN\<close>.
\<close>

theorem degenerate_angle_is_created:
  assumes "mode s = M_angle" "tempPts s = [a, b]"
    "finite_pt a" "finite_pt b" "finite_pt (surface_point e)"
    "a = b \<or> surface_point e = b"
  shows "handleOverlayClick e s =
           s\<lparr>angles := angles s @ [\<lparr> ang_a = a, ang_b = b, ang_c = surface_point e,
                                     ang_id = randomUUID e \<rparr>],
             tempPts := []\<rparr>
         \<and> alerts (handleOverlayClick e s) = alerts s
         \<and> angleAtVertex a b (surface_point e) = NaN"
proof -
  obtain ax ay where a: "a = Pt ax ay" using assms(3) by (rule finite_ptE)
  obtain bx "by" where b: "b = Pt bx by" using assms(4) by (rule finite_ptE)
  obtain cx cy where c: "surface_point e = Pt cx cy" using assms(5) by (rule finite_ptE)
  have "angleAtVertex a b (surface_point e) = NaN"
    using assms(6) unfolding a b c by (auto simp: angle_degenerate_NaN)
  then show ?thesis
    by (simp add: angle_click [OF assms(1,2)])
qed

theorem degenerate_angle_is_created_witness:
  "mode (handleOverlayClick (click_at 0 0 None) (handleOverlayClick (click_at 0 0 None)
      (startAngle initial))) = M_angle
   \<and> tempPts (handleOverlayClick (click_at 0 0 None) (handleOverlayClick (click_at 0 0 None)
      (startAngle initial))) = [Pt 0 0, Pt 0 0]
   \<and> finite_pt (Pt 0 0) \<and> finite_pt (surface_point (click_at 1 1 None))
   \<and> angles (handleOverlayClick (click_at 1 1 None)
       (handleOverlayClick (click_at 0 0 None) (handleOverlayClick (click_at 0 0 None)
         (startAngle initial))))
      = [\<lparr> ang_a = Pt 0 0, ang_b = Pt 0 0, ang_c = Pt 1 1, ang_id = ''id'' \<rparr>]
   \<and> angleAtVertex (Pt 0 0) (Pt 0 0) (surface_point (click_at 1 1 None)) = NaN"
proof -
  let ?s = "handleOverlayClick (click_at 0 0 None) (handleOverlayClick (click_at 0 0 None)
      (startAngle initial))"
  have m: "mode ?s = M_angle"
    by (simp add: handleOverlayClick_def Let_def startAngle_def initial_def)
  have t: "tempPts ?s = [Pt 0 0, Pt 0 0]"
    by (simp add: handleOverlayClick_def Let_def startAngle_def initial_def
        surface_point_click_at)
  have f: "finite_pt (Pt 0 0)" "finite_pt (surface_point (click_at 1 1 None))"
    by (simp_all add: surface_point_click_at finite_pt_Pt)
  have a: "angles ?s = []"
    by (simp add: handleOverlayClick_def Let_def startAngle_def initial_def)
  show ?thesis
    using degenerate_angle_is_created [OF m t f(1) f(1) f(2)] m t f a
    by (simp add: surface_point_click_at click_at_fields)
qed

text \<open>
  C1 as stated fails: with the clicks \<open>(0,0)\<close>, \<open>(0,0)\<close>, \<open>(1,1)\<close> in Angle mode an Angle
  is created, nothing is reported, and its angle evaluates to \<open>NaN\<close>.
\<close>

theorem degenerate_angle_counterexample:
  "angles (handleOverlayClick (click_at 1 1 None) (handleOverlayClick (click_at 0 0 None)
      (handleOverlayClick (click_at 0 0 None) (startAngle initial)))) \<noteq> []
   \<and> alerts (handleOverlayClick (click_at 1 1 None) (handleOverlayClick (click_at 0 0 None)
      (handleOverlayClick (click_at 0 0 None) (startAngle initial)))) = []
   \<and> angleAtVertex (Pt 0 0) (Pt 0 0) (Pt 1 1) = NaN"
  by (simp add: handleOverlayClick_def Let_def initial_def startAngle_def
      angle_degenerate_NaN)


subsection \<open>An upper bound of pi\<close>



subsection \<open>The range of the angle\<close>










subsection \<open>Calibration\<close>

lemma pix_0_100:
  "math_sqrt (num_add (num_mul (num_sub (Fin 0) (Fin 0)) (num_sub (Fin 0) (Fin 0)))
                      (num_mul (num_sub (Fin 100) (Fin 0)) (num_sub (Fin 100) (Fin 0))))
   = Fin 100"
  by (simp add: num_sub_def fl_numeral sqrt_10000)

lemma dist_0_100: "dist (Pt 0 0) (Pt 0 100) = Fin 100"
  by (simp add: dist_def Pt_def num_sub_def fl_numeral fl_neg_numeral sqrt_10000)

text \<open>
  C3 (as amended). When a Calibrate pair is completed, the scale is set to the parsed
  length divided by the pixel distance exactly when the prompt returned a non-empty text
  whose parsed value is greater than zero, \<open>Infinity\<close> included; otherwise the scale is
  unchanged. The alert is raised exactly when the text is non-empty and
  its value is not greater than zero (\<open>NaN\<close>, zero, negative); a cancelled or empty prompt
  raises nothing. The pending buffer is emptied in every case.
\<close>

theorem calibrate_length_check:
  assumes "mode s = M_calibrate" "tempPts s = [a]"
  shows "unitPerPx (handleOverlayClick e s) =
           (if truthy_str (prompt_reply e) \<and> positive (parseFloat e (the (prompt_reply e)))
            then Some (num_div (parseFloat e (the (prompt_reply e)))
                   (let dx = num_sub (pt_x (surface_point e)) (pt_x a);
                        dy = num_sub (pt_y (surface_point e)) (pt_y a)
                    in math_sqrt (num_add (num_mul dx dx) (num_mul dy dy))))
            else unitPerPx s)
         \<and> alerts (handleOverlayClick e s) =
           (if truthy_str (prompt_reply e) \<and> \<not> positive (parseFloat e (the (prompt_reply e)))
            then alerts s @ [invalid_value_msg] else alerts s)
         \<and> tempPts (handleOverlayClick e s) = []"
  by (simp add: calibrate_click [OF assms] Let_def)

theorem calibrate_length_check_witness:
  "mode (handleOverlayClick (click_at 0 0 None) (startCalibrate initial)) = M_calibrate
   \<and> tempPts (handleOverlayClick (click_at 0 0 None) (startCalibrate initial)) = [Pt 0 0]
   \<and> unitPerPx (handleOverlayClick (click_at 0 100 (Some ''Infinity''))
        (handleOverlayClick (click_at 0 0 None) (startCalibrate initial))) = Some PInf
   \<and> alerts (handleOverlayClick (click_at 0 100 (Some ''Infinity''))
        (handleOverlayClick (click_at 0 0 None) (startCalibrate initial))) = []
   \<and> unitPerPx (handleOverlayClick (click_at 0 100 (Some ''-3''))
        (handleOverlayClick (click_at 0 0 None) (startCalibrate initial))) = None
   \<and> alerts (handleOverlayClick (click_at 0 100 (Some ''-3''))
        (handleOverlayClick (click_at 0 0 None) (startCalibrate initial))) = [invalid_value_msg]
   \<and> unitPerPx (handleOverlayClick (click_at 0 100 None)
        (handleOverlayClick (click_at 0 0 None) (startCalibrate initial))) = None
   \<and> alerts (handleOverlayClick (click_at 0 100 None)
        (handleOverlayClick (click_at 0 0 None) (startCalibrate initial))) = []"
proof -
  let ?s = "handleOverlayClick (click_at 0 0 None) (startCalibrate initial)"
  have s: "?s = initial\<lparr>mode := M_calibrate, tempPts := [Pt 0 0]\<rparr>"
    by (simp add: handleOverlayClick_def Let_def startCalibrate_def initial_def
        surface_point_click_at)
  have m: "mode ?s = M_calibrate" and t: "tempPts ?s = [Pt 0 0]"
    by (simp_all add: s)
  have u: "unitPerPx ?s = None" "alerts ?s = []"
    unfolding s by (simp_all add: initial_def)
  show ?thesis
    using calibrate_length_check [OF m t, of "click_at 0 100 (Some ''Infinity'')"]
      calibrate_length_check [OF m t, of "click_at 0 100 (Some ''-3'')"]
      calibrate_length_check [OF m t, of "click_at 0 100 None"] m t u
    by (simp add: click_at_fields parseFloat_sample_def surface_point_click_at Pt_def
        pix_0_100)
qed

text \<open>
  C3 as stated fails: the reply "Infinity" is accepted, no alert is raised and the scale
  becomes \<open>Infinity\<close>.
\<close>

theorem infinite_length_counterexample:
  "unitPerPx (handleOverlayClick (click_at 0 100 (Some ''Infinity''))
      (handleOverlayClick (click_at 0 0 None) (startCalibrate initial))) = Some PInf
   \<and> alerts (handleOverlayClick (click_at 0 100 (Some ''Infinity''))
      (handleOverlayClick (click_at 0 0 None) (startCalibrate initial))) = []"
  by (simp add: handleOverlayClick_def Let_def initial_def startCalibrate_def
      surface_point_click_at click_at_fields parseFloat_sample_def Pt_def pix_0_100)

subsection \<open>Calibration round trip\<close>

lemma pw_d: "pow2 (- 1021) = 2 * pow2 (- 1022)"
proof -
  have "pow2 (1 + (- 1022)) = pow2 1 * pow2 (- 1022)" by (rule power_int_add) simp
  then show ?thesis by simp
qed

lemma pw_e: "2 * pow2 1022 = pow2 1023"
proof -
  have "pow2 (1 + 1022) = pow2 1 * pow2 1022" by (rule power_int_add) simp
  then show ?thesis by simp
qed

text \<open>
  The quotient \<open>L / D\<close> and the product of \<open>D\<close> with the rounded quotient, both in the
  normal range: the product is \<open>L\<close> up to two roundings.
\<close>

lemma round_trip_error:
  assumes "0 < D" "0 < L" "pow2 (- 1022) \<le> L / D" "L / D < pow2 1023"
    "pow2 (- 1021) \<le> L" "L < pow2 1022"
  obtains s r where "fl (L / D) = Fin s" "0 < s" "fl (D * s) = Fin r"
    "\<bar>r - L\<bar> \<le> pow2 (- 51) * L"
proof -
  define e :: real where "e = pow2 (- 53)"
  define lo :: real where "lo = pow2 (- 1022)"
  define hi :: real where "hi = pow2 1023"
  have e: "0 < e" "e \<le> 1 / 2" "e + e * (1 + e) \<le> pow2 (- 51)" by (simp_all add: e_def)
  have lo0: "0 < lo" unfolding lo_def by (rule zero_less_power_int) simp
  have b: "lo \<le> L / D" "L / D < hi" "2 * lo \<le> L" "2 * L < hi"
    using assms(3-6) unfolding lo_def hi_def pw_d pw_e [symmetric] by simp_all
  define Q where "Q = L / D"
  have q: "0 < Q" using assms(1,2) by (simp add: Q_def)
  have DQ: "D * Q = L" using assms(1) by (simp add: Q_def)
  have aq: "\<bar>Q\<bar> = Q" using q by (rule abs_of_pos)
  have bQ: "lo \<le> Q" "Q < hi" using b(1,2) unfolding Q_def .
  define s where "s = pow2 (binade Q - 52) * of_int (rhe (Q / pow2 (binade Q - 52)))"
  have "\<bar>Q\<bar> < pow2 1023" using bQ(2) unfolding aq hi_def .
  then have fs: "fl Q = Fin s" unfolding s_def by (rule fl_finite)
  have "pow2 (- 1022) \<le> \<bar>Q\<bar>" using bQ(1) unfolding aq lo_def .
  then have "\<bar>s - Q\<bar> \<le> pow2 (- 53) * \<bar>Q\<bar>" using fs by (rule fl_rel_error)
  then have es: "\<bar>s - Q\<bar> \<le> e * Q" unfolding aq e_def .
  have "e * Q \<le> 1 / 2 * Q" using e(2) q by (intro mult_right_mono) simp_all
  then have s0: "0 < s" using es q by linarith
  have "D * s - L = D * (s - Q)" using DQ by (simp add: algebra_simps)
  then have "\<bar>D * s - L\<bar> = D * \<bar>s - Q\<bar>" using assms(1) by (simp add: abs_mult)
  also have "\<dots> \<le> D * (e * Q)" using es assms(1) by (intro mult_left_mono) simp_all
  also have "\<dots> = e * L" using DQ by (simp add: algebra_simps)
  finally have ex: "\<bar>D * s - L\<bar> \<le> e * L" .
  have eL: "0 \<le> e * L" "e * L \<le> 1 / 2 * L"
    using e(1,2) assms(2) by (simp_all add: mult_right_mono)
  have lowx: "lo \<le> D * s" using ex eL b(3) by linarith
  have upx: "D * s < hi" using ex eL b(4) assms(2) by linarith
  have px: "0 < D * s" using assms(1) s0 by simp
  have ap: "\<bar>D * s\<bar> = D * s" using px by (rule abs_of_pos)
  define r where "r = pow2 (binade (D * s) - 52) * of_int (rhe (D * s / pow2 (binade (D * s) - 52)))"
  have "\<bar>D * s\<bar> < pow2 1023" using upx unfolding ap hi_def .
  then have fr: "fl (D * s) = Fin r" unfolding r_def by (rule fl_finite)
  have "pow2 (- 1022) \<le> \<bar>D * s\<bar>" using lowx unfolding ap lo_def .
  then have "\<bar>r - D * s\<bar> \<le> pow2 (- 53) * \<bar>D * s\<bar>" using fr by (rule fl_rel_error)
  then have "\<bar>r - D * s\<bar> \<le> e * (D * s)" unfolding ap e_def .
  also have "\<dots> \<le> e * (L + e * L)" using ex e(1) by (intro mult_left_mono) linarith+
  finally have er: "\<bar>r - D * s\<bar> \<le> e * (L + e * L)" .
  have "\<bar>r - L\<bar> \<le> \<bar>r - D * s\<bar> + \<bar>D * s - L\<bar>" by simp
  also have "\<dots> \<le> e * (L + e * L) + e * L" using er ex by linarith
  also have "\<dots> = (e + e * (1 + e)) * L" by (simp add: algebra_simps)
  also have "\<dots> \<le> pow2 (- 51) * L"
    using e(3) assms(2) by (intro mult_right_mono) simp_all
  finally have "\<bar>r - L\<bar> \<le> pow2 (- 51) * L" .
  then show ?thesis using that [OF fs [unfolded Q_def] s0 fr] by simp
qed

lemma half_50:
  "num_div (Fin 50) (Fin 100) = Fin (1 / 2)" "num_mul (Fin 100) (Fin (1 / 2)) = Fin 50"
proof -
  show "num_div (Fin 50) (Fin 100) = Fin (1 / 2)"
    using fl_representable [of 1 "- 1"] by simp
  show "num_mul (Fin 100) (Fin (1 / 2)) = Fin 50"
    by (simp add: fl_numeral)
qed

lemma tiny_quotient: "num_div (Fin (pow2 (- 1074))) (Fin 100) = Fin 0"
proof -
  define q :: real where "q = pow2 (- 1074)"
  have q: "0 < q" unfolding q_def by (rule zero_less_power_int) simp
  have "q < pow2 (- 1022)" unfolding q_def by (rule power_int_strict_increasing) simp_all
  moreover have "q / 100 \<le> q" using q by simp
  moreover have "\<bar>q / 100\<bar> = q / 100" using q by simp
  ultimately have "\<bar>q / 100\<bar> < pow2 (- 1022)" by linarith
  then have "fl (q / 100) = Fin (q * of_int (rhe (q / 100 / q)))"
    unfolding q_def by (rule fl_subnormal)
  moreover have "q / 100 / q = 1 / 100" using q by simp
  moreover have "rhe (1 / 100 :: real) = 0" by (rule rhe_eqI) simp_all
  ultimately have "fl (q / 100) = Fin 0" by simp
  then show ?thesis unfolding q_def [symmetric] by simp
qed

text \<open>
  C5 (as amended). Completing a calibration at pixel distance \<open>D > 0\<close> with a parsed
  length \<open>L > 0\<close> sets the scale to the binary64 quotient of \<open>L\<close> by \<open>D\<close>. When \<open>L / D\<close>
  lies in the normal range of binary64 and \<open>L\<close> lies between \<open>2\<^sup>-\<^sup>1\<^sup>0\<^sup>2\<^sup>1\<close> and \<open>2\<^sup>1\<^sup>0\<^sup>2\<^sup>2\<close>, the
  pixel length \<open>D\<close> converts to a finite number within \<open>2\<^sup>-\<^sup>5\<^sup>1 L\<close> of \<open>L\<close>.
\<close>

theorem calibration_round_trip_binary64:
  assumes "mode s = M_calibrate" "tempPts s = [a]"
    "(let dx = num_sub (pt_x (surface_point e)) (pt_x a);
          dy = num_sub (pt_y (surface_point e)) (pt_y a)
      in math_sqrt (num_add (num_mul dx dx) (num_mul dy dy))) = Fin D" "0 < D"
    "prompt_reply e = Some t" "t \<noteq> []" "parseFloat e t = Fin L" "0 < L"
    "pow2 (- 1022) \<le> L / D" "L / D < pow2 1023" "pow2 (- 1021) \<le> L" "L < pow2 1022"
  shows "unitPerPx (handleOverlayClick e s) = Some (num_div (Fin L) (Fin D))
         \<and> (\<exists>r. pxToUnit (handleOverlayClick e s) (Fin D) = Some (Fin r)
                \<and> \<bar>r - L\<bar> \<le> pow2 (- 51) * L)"
proof -
  have s': "handleOverlayClick e s = s\<lparr>unitPerPx := Some (num_div (Fin L) (Fin D)), tempPts := []\<rparr>"
    using assms(3) [unfolded Let_def] assms(5-8)
    by (simp add: calibrate_click [OF assms(1,2)] Let_def del: num_div.simps)
  obtain q r where q: "fl (L / D) = Fin q" "0 < q" "fl (D * q) = Fin r"
    "\<bar>r - L\<bar> \<le> pow2 (- 51) * L"
    using assms(4) assms(8-12) by (rule round_trip_error)
  have d: "num_div (Fin L) (Fin D) = Fin q" using assms(4) q(1) by simp
  have "pxToUnit (handleOverlayClick e s) (Fin D) = Some (Fin r)"
    unfolding s' d using q(2,3) by (simp add: pxToUnit_def)
  then show ?thesis using q(4) s' by auto
qed

theorem calibration_round_trip_binary64_witness:
  "mode (handleOverlayClick (click_at 0 0 None) (startCalibrate initial)) = M_calibrate
   \<and> tempPts (handleOverlayClick (click_at 0 0 None) (startCalibrate initial)) = [Pt 0 0]
   \<and> prompt_reply (click_at 0 100 (Some ''50'')) = Some ''50''
   \<and> parseFloat (click_at 0 100 (Some ''50'')) ''50'' = Fin 50
   \<and> pow2 (- 1022) \<le> 50 / 100 \<and> 50 / 100 < pow2 1023
   \<and> pow2 (- 1021) \<le> 50 \<and> 50 < pow2 1022
   \<and> unitPerPx (handleOverlayClick (click_at 0 100 (Some ''50''))
        (handleOverlayClick (click_at 0 0 None) (startCalibrate initial))) = Some (Fin 0.5)
   \<and> pxToUnit (handleOverlayClick (click_at 0 100 (Some ''50''))
        (handleOverlayClick (click_at 0 0 None) (startCalibrate initial))) (Fin 100)
      = Some (Fin 50)
   \<and> length_unit (json_segment_of (handleOverlayClick (click_at 0 100 (Some ''50''))
        (handleOverlayClick (click_at 0 0 None) (startCalibrate initial)))
        \<lparr> seg_a = Pt 0 0, seg_b = Pt 0 100, seg_id = ''id'' \<rparr>) = Some (Fin 50)"
proof -
  let ?s = "handleOverlayClick (click_at 0 0 None) (startCalibrate initial)"
  let ?e = "click_at 0 100 (Some ''50'')"
  have m: "mode ?s = M_calibrate" and t: "tempPts ?s = [Pt 0 0]"
    by (simp_all add: handleOverlayClick_def Let_def startCalibrate_def initial_def
        surface_point_click_at)
  have D: "(let dx = num_sub (pt_x (surface_point ?e)) (pt_x (Pt 0 0));
                dy = num_sub (pt_y (surface_point ?e)) (pt_y (Pt 0 0))
            in math_sqrt (num_add (num_mul dx dx) (num_mul dy dy))) = Fin 100"
    by (simp add: surface_point_click_at Pt_def pix_0_100 del: num_mul.simps num_add.simps
        math_sqrt.simps)
  have r: "prompt_reply ?e = Some ''50''" "''50'' \<noteq> []" "parseFloat ?e ''50'' = Fin 50"
    by (simp_all add: click_at_fields parseFloat_sample_def)
  have lo: "pow2 (- 1022) \<le> 50 / 100" "pow2 (- 1021) \<le> 50"
  proof -
    have "pow2 (- 1022) \<le> pow2 (- 1)" by (rule power_int_increasing) simp_all
    then show "pow2 (- 1022) \<le> 50 / 100" by simp
    have "pow2 (- 1021) \<le> pow2 0" by (rule power_int_increasing) simp_all
    then show "pow2 (- 1021) \<le> 50" by simp
  qed
  have hi: "50 / 100 < pow2 1023" "50 < pow2 1022"
  proof -
    have "pow2 6 \<le> pow2 1022" by (rule power_int_increasing) simp_all
    then show "50 < pow2 1022" by simp
    have "pow2 6 \<le> pow2 1023" by (rule power_int_increasing) simp_all
    then show "50 / 100 < pow2 1023" by simp
  qed
  have u: "unitPerPx (handleOverlayClick ?e ?s) = Some (Fin (1 / 2))"
    using calibration_round_trip_binary64 [OF m t D _ r _ lo(1) hi(1) lo(2) hi(2)]
    by (simp add: half_50 del: num_div.simps)
  have p: "pxToUnit (handleOverlayClick ?e ?s) (Fin 100) = Some (Fin 50)"
    unfolding pxToUnit_def u by (simp add: half_50 del: num_mul.simps)
  have j: "length_unit (json_segment_of (handleOverlayClick ?e ?s)
        \<lparr> seg_a = Pt 0 0, seg_b = Pt 0 100, seg_id = ''id'' \<rparr>) = Some (Fin 50)"
    unfolding json_segment_of_def u by (simp add: dist_0_100 half_50 del: num_mul.simps)
  show ?thesis using m t r lo hi u p j by simp
qed

text \<open>
  C5 as stated fails: with the points \<open>(0, 0)\<close> and \<open>(0, 100)\<close>, at pixel distance 100, and
  the reply "5e-324", whose value is the least positive number \<open>2\<^sup>-\<^sup>1\<^sup>0\<^sup>7\<^sup>4\<close>, the quotient
  underflows: the scale is set to 0, and a pixel length converts to no value at all.
\<close>

theorem calibration_underflow_counterexample:
  "surface_point (click_at 0 0 None) = Pt 0 0
   \<and> surface_point (click_at 0 100 (Some ''5e-324'')) = Pt 0 100
   \<and> dist (Pt 0 0) (Pt 0 100) = Fin 100
   \<and> parseFloat (click_at 0 100 (Some ''5e-324'')) ''5e-324'' = Fin (pow2 (- 1074))
   \<and> 0 < pow2 (- 1074)
   \<and> unitPerPx (handleOverlayClick (click_at 0 100 (Some ''5e-324''))
        (handleOverlayClick (click_at 0 0 None) (startCalibrate initial))) = Some (Fin 0)
   \<and> pxToUnit (handleOverlayClick (click_at 0 100 (Some ''5e-324''))
        (handleOverlayClick (click_at 0 0 None) (startCalibrate initial))) (Fin 100) = None"
proof -
  let ?s = "handleOverlayClick (click_at 0 0 None) (startCalibrate initial)"
  let ?e = "click_at 0 100 (Some ''5e-324'')"
  have m: "mode ?s = M_calibrate" and t: "tempPts ?s = [Pt 0 0]"
    by (simp_all add: handleOverlayClick_def Let_def startCalibrate_def initial_def
        surface_point_click_at)
  define q :: real where "q = pow2 (- 1074)"
  have q: "0 < q" unfolding q_def by (rule zero_less_power_int) simp
  have v: "parseFloat ?e ''5e-324'' = Fin q"
    unfolding q_def by (simp add: click_at_fields parseFloat_sample_def)
  have r: "prompt_reply ?e = Some ''5e-324''" by (simp add: click_at_fields)
  have "positive (Fin q)" using q by simp
  then have u: "unitPerPx (handleOverlayClick ?e ?s) = Some (Fin 0)"
    unfolding calibrate_click [OF m t] Let_def r
    by (simp add: v surface_point_click_at Pt_def pix_0_100 tiny_quotient [folded q_def]
        del: num_mul.simps num_add.simps math_sqrt.simps num_div.simps positive.simps)
  have p: "pxToUnit (handleOverlayClick ?e ?s) (Fin 100) = None"
    unfolding pxToUnit_def u by simp
  show ?thesis unfolding q_def [symmetric] using q v u p
    by (simp add: surface_point_click_at dist_0_100)
qed

subsection \<open>CSV export\<close>





lemma newline_not_printable:
  "newline \<notin> set ''segment''" "newline \<notin> set ''angle''" "newline \<notin> set '',''"
  "newline \<notin> set ''-''"
  "newline \<notin> set ''type,x1,y1,x2,y2,length_px,length_unit,unit''"
  "newline \<notin> set ''type,ax,ay,bx,by,cx,cy,angle_deg,-''"
  by (simp_all add: newline_def)











subsection \<open>Edge filter: stores of the loops\<close>

lemma fold_length:
  assumes "\<And>k out. k \<in> set ks \<Longrightarrow> length (W k out) = length out"
  shows "length (fold W ks out) = length out"
  using assms by (induction ks arbitrary: out) simp_all

lemma fold_untouched:
  assumes "\<And>k out. k \<in> set ks \<Longrightarrow> W k out ! n = out ! n"
  shows "fold W ks out ! n = out ! n"
  using assms by (induction ks arbitrary: out) simp_all

lemma fold_stored:
  assumes "key \<in> set ks"
    and "\<And>k out. k \<in> set ks \<Longrightarrow> k \<noteq> key \<Longrightarrow> W k out ! n = out ! n"
    and "\<And>out. length out = N \<Longrightarrow> W key out ! n = v"
    and "\<And>k out. k \<in> set ks \<Longrightarrow> length (W k out) = length out"
    and "length out = N"
  shows "fold W ks out ! n = v"
  using assms
proof (induction ks arbitrary: out)
  case Nil
  then show ?case by simp
next
  case (Cons k ks)
  have len: "length (W k out) = N" using Cons.prems(4,5) by simp
  show ?case
  proof (cases "key \<in> set ks")
    case True
    have "fold W ks (W k out) ! n = v"
      using True Cons.prems(2,3,4) len by (intro Cons.IH) simp_all
    then show ?thesis by simp
  next
    case False
    then have k: "k = key" using Cons.prems(1) by simp
    have "fold W ks (W k out) ! n = W k out ! n"
    proof (rule fold_untouched)
      fix k' out' assume "k' \<in> set ks"
      then show "W k' out' ! n = out' ! n" using False Cons.prems(2) by auto
    qed
    also have "\<dots> = v" unfolding k using Cons.prems(3,5) by simp
    finally show ?thesis by simp
  qed
qed

lemma pixel_index_bound:
  fixes x y c w h :: nat
  assumes "x < w" "y < h" "c < 4"
  shows "(y * w + x) * 4 + c < 4 * w * h"
proof -
  have "y * w + x < Suc y * w" using assms(1) by simp
  also have "\<dots> \<le> h * w" using assms(2) by (intro mult_le_mono1) simp
  finally have "y * w + x + 1 \<le> h * w" by simp
  then have "(y * w + x + 1) * 4 \<le> h * w * 4" by (rule mult_le_mono1)
  then show ?thesis using assms(3) by (simp add: algebra_simps)
qed

lemma div4: "c < 4 \<Longrightarrow> (a * 4 + c) div 4 = a" for a c :: nat
  by simp

lemma mod4: "c < 4 \<Longrightarrow> (a * 4 + c) mod 4 = c" for a c :: nat
  by simp

lemma divw: "x < w \<Longrightarrow> (y * w + x) div w = y" for x y w :: nat
  by simp

lemma modw: "x < w \<Longrightarrow> (y * w + x) mod w = x" for x y w :: nat
  by simp

lemma pixel_index_inj:
  fixes x y c x0 y0 c0 w :: nat
  assumes "x < w" "x0 < w" "c < 4" "c0 < 4" "(y * w + x) * 4 + c = (y0 * w + x0) * 4 + c0"
  shows "x = x0 \<and> y = y0 \<and> c = c0"
proof -
  have "((y * w + x) * 4 + c) div 4 = ((y0 * w + x0) * 4 + c0) div 4"
    by (simp only: assms(5))
  then have e: "y * w + x = y0 * w + x0"
    by (simp only: div4 [OF assms(3)] div4 [OF assms(4)])
  have "((y * w + x) * 4 + c) mod 4 = ((y0 * w + x0) * 4 + c0) mod 4"
    by (simp only: assms(5))
  then have c: "c = c0"
    by (simp only: mod4 [OF assms(3)] mod4 [OF assms(4)])
  have "(y * w + x) mod w = (y0 * w + x0) mod w" by (simp only: e)
  then have x: "x = x0"
    by (simp only: modw [OF assms(1)] modw [OF assms(2)])
  have "(y * w + x) div w = (y0 * w + x0) div w" by (simp only: e)
  then have "y = y0"
    by (simp only: divw [OF assms(1)] divw [OF assms(2)])
  then show ?thesis using x c by simp
qed

lemma write_pixel_stores:
  "write_pixel img x y out =
     out[(y * width img + x) * 4 := toUint8Clamp (pixel_value img (int x) (int y)),
         (y * width img + x) * 4 + 1 := toUint8Clamp (pixel_value img (int x) (int y)),
         (y * width img + x) * 4 + 2 := toUint8Clamp (pixel_value img (int x) (int y)),
         (y * width img + x) * 4 + 3 := 255]"
proof -
  have "idx (int (width img)) (int x) (int y) 0 = int ((y * width img + x) * 4)"
    "idx (int (width img)) (int x) (int y) 1 = int ((y * width img + x) * 4 + 1)"
    "idx (int (width img)) (int x) (int y) 2 = int ((y * width img + x) * 4 + 2)"
    "idx (int (width img)) (int x) (int y) 3 = int ((y * width img + x) * 4 + 3)"
    by (simp_all add: idx_def)
  then show ?thesis
    unfolding write_pixel_def Let_def by (simp only: nat_int)
qed

lemma write_pixel_length: "length (write_pixel img x y out) = length out"
  by (simp add: write_pixel_stores)

lemma write_pixel_elsewhere:
  assumes "x < width img" "x0 < width img" "c0 < 4" "(x, y) \<noteq> (x0, y0)"
  shows "write_pixel img x y out ! ((y0 * width img + x0) * 4 + c0)
         = out ! ((y0 * width img + x0) * 4 + c0)"
proof -
  define a where "a = (y * width img + x) * 4"
  define n where "n = (y0 * width img + x0) * 4 + c0"
  have ne: "a + c \<noteq> n" if "c < 4" for c
  proof
    assume "a + c = n"
    then have "(y * width img + x) * 4 + c = (y0 * width img + x0) * 4 + c0"
      by (simp only: a_def n_def)
    from pixel_index_inj [OF assms(1,2) that assms(3) this] have "x = x0 \<and> y = y0"
      by blast
    with assms(4) show False by simp
  qed
  have "a \<noteq> n" "a + 1 \<noteq> n" "a + 2 \<noteq> n" "a + 3 \<noteq> n"
    using ne [of 0] ne [of 1] ne [of 2] ne [of 3] by simp_all
  then have "out[a := v, a + 1 := v, a + 2 := v, a + 3 := 255] ! n = out ! n" for v
    by simp
  then show ?thesis
    unfolding write_pixel_stores a_def n_def .
qed

lemma write_pixel_here:
  assumes "(y * width img + x) * 4 + 3 < length out" "c < 4"
  shows "write_pixel img x y out ! ((y * width img + x) * 4 + c)
         = (if c = 3 then 255 else toUint8Clamp (pixel_value img (int x) (int y)))"
proof -
  define a where "a = (y * width img + x) * 4"
  have len: "a + 3 < length out" using assms(1) by (simp only: a_def)
  have "out[a := v, a + 1 := v, a + 2 := v, a + 3 := 255] ! (a + c)
        = (if c = 3 then 255 else v)" for v :: nat
  proof -
    consider "c = 0" | "c = 1" | "c = 2" | "c = 3" using assms(2) by linarith
    then show ?thesis using len by cases simp_all
  qed
  then show ?thesis
    unfolding write_pixel_stores a_def .
qed

lemma row_length:
  "length (fold (\<lambda>x out. write_pixel img x y out) xs out) = length out"
  by (rule fold_length) (rule write_pixel_length)

lemma row_untouched:
  assumes "\<And>x. x \<in> set xs \<Longrightarrow> x < width img \<and> (x, y) \<noteq> (x0, y0)"
    and "x0 < width img" "c0 < 4"
  shows "fold (\<lambda>x out. write_pixel img x y out) xs out ! ((y0 * width img + x0) * 4 + c0)
         = out ! ((y0 * width img + x0) * 4 + c0)"
proof (rule fold_untouched)
  fix x out' assume "x \<in> set xs"
  then have "x < width img" "(x, y) \<noteq> (x0, y0)" using assms(1) by simp_all
  then show "write_pixel img x y out' ! ((y0 * width img + x0) * 4 + c0)
             = out' ! ((y0 * width img + x0) * 4 + c0)"
    using assms(2,3) by (intro write_pixel_elsewhere)
qed

lemma row_stored:
  assumes "x0 \<in> set xs" "\<And>x. x \<in> set xs \<Longrightarrow> x < width img" "c0 < 4"
    and "(y0 * width img + x0) * 4 + 3 < length out"
  shows "fold (\<lambda>x out. write_pixel img x y0 out) xs out ! ((y0 * width img + x0) * 4 + c0)
         = (if c0 = 3 then 255 else toUint8Clamp (pixel_value img (int x0) (int y0)))"
proof (rule fold_stored [where key = x0 and N = "length out"])
  show "x0 \<in> set xs" by (rule assms(1))
  show "length out = length out" by simp
next
  fix x out' assume x: "x \<in> set xs" "x \<noteq> x0"
  have "x < width img" "x0 < width img" using assms(1,2) x by simp_all
  moreover have "(x, y0) \<noteq> (x0, y0)" using x by simp
  ultimately show "write_pixel img x y0 out' ! ((y0 * width img + x0) * 4 + c0)
             = out' ! ((y0 * width img + x0) * 4 + c0)"
    using assms(3) by (intro write_pixel_elsewhere)
next
  fix out' :: "nat list" assume "length out' = length out"
  then have "(y0 * width img + x0) * 4 + 3 < length out'" using assms(4) by simp
  then show "write_pixel img x0 y0 out' ! ((y0 * width img + x0) * 4 + c0)
             = (if c0 = 3 then 255 else toUint8Clamp (pixel_value img (int x0) (int y0)))"
    using assms(3) by (rule write_pixel_here)
next
  fix x out' show "length (write_pixel img x y0 out') = length out'"
    by (rule write_pixel_length)
qed

lemma loops_untouched:
  assumes "\<And>x y. x \<in> set xs \<Longrightarrow> y \<in> set ys \<Longrightarrow> (x, y) \<noteq> (x0, y0)"
    and "\<And>x. x \<in> set xs \<Longrightarrow> x < width img" "x0 < width img" "c0 < 4"
  shows "fold (\<lambda>y out. fold (\<lambda>x out. write_pixel img x y out) xs out) ys out
           ! ((y0 * width img + x0) * 4 + c0)
         = out ! ((y0 * width img + x0) * 4 + c0)"
proof (rule fold_untouched)
  fix y out' assume "y \<in> set ys"
  then show "fold (\<lambda>x out. write_pixel img x y out) xs out' ! ((y0 * width img + x0) * 4 + c0)
             = out' ! ((y0 * width img + x0) * 4 + c0)"
    using assms by (intro row_untouched) simp_all
qed

lemma loops_stored:
  assumes "x0 \<in> set xs" "y0 \<in> set ys" "\<And>x. x \<in> set xs \<Longrightarrow> x < width img" "c0 < 4"
    and "(y0 * width img + x0) * 4 + 3 < length out"
  shows "fold (\<lambda>y out. fold (\<lambda>x out. write_pixel img x y out) xs out) ys out
           ! ((y0 * width img + x0) * 4 + c0)
         = (if c0 = 3 then 255 else toUint8Clamp (pixel_value img (int x0) (int y0)))"
proof (rule fold_stored [where key = y0 and N = "length out"])
  show "y0 \<in> set ys" by (rule assms(2))
  show "length out = length out" by simp
next
  fix y out' assume y: "y \<in> set ys" "y \<noteq> y0"
  have x0: "x0 < width img" using assms(1,3) by simp
  show "fold (\<lambda>x out. write_pixel img x y out) xs out' ! ((y0 * width img + x0) * 4 + c0)
        = out' ! ((y0 * width img + x0) * 4 + c0)"
    using assms(3,4) y x0 by (intro row_untouched) simp_all
next
  fix out' :: "nat list" assume "length out' = length out"
  then have "(y0 * width img + x0) * 4 + 3 < length out'" using assms(5) by simp
  with assms(1,3,4)
  show "fold (\<lambda>x out. write_pixel img x y0 out) xs out' ! ((y0 * width img + x0) * 4 + c0)
        = (if c0 = 3 then 255 else toUint8Clamp (pixel_value img (int x0) (int y0)))"
    by (intro row_stored) simp_all
next
  fix y out' show "length (fold (\<lambda>x out. write_pixel img x y out) xs out') = length out'"
    by (rule row_length)
qed

lemma applyEdgeFilter_size:
  "width (applyEdgeFilter img) = width img" "height (applyEdgeFilter img) = height img"
  "length (data (applyEdgeFilter img)) = 4 * width img * height img"
proof -
  have "length (fold (\<lambda>y out. fold (\<lambda>x out. write_pixel img x y out) xs out) ys out)
        = length out" for xs ys out
    by (rule fold_length) (rule row_length)
  then show "length (data (applyEdgeFilter img)) = 4 * width img * height img"
    by (simp add: applyEdgeFilter_def Let_def)
qed (simp_all add: applyEdgeFilter_def Let_def)

lemma border_is_zero:
  assumes "border_pixel img x y" "c < 4"
  shows "channel (applyEdgeFilter img) x y c = 0"
proof -
  have xy: "x < width img" "y < height img" using assms(1) by (simp_all add: border_pixel_def)
  have out: "\<not> (1 \<le> x \<and> x < width img - 1 \<and> 1 \<le> y \<and> y < height img - 1)"
    using assms(1) by (auto simp: border_pixel_def)
  have "fold (\<lambda>y out. fold (\<lambda>x out. write_pixel img x y out) [1 ..< width img - 1] out)
          [1 ..< height img - 1] (replicate (4 * width img * height img) 0)
          ! ((y * width img + x) * 4 + c)
        = replicate (4 * width img * height img) 0 ! ((y * width img + x) * 4 + c)"
    using out xy(1) assms(2) by (intro loops_untouched) auto
  also have "\<dots> = 0"
    using pixel_index_bound [OF xy assms(2)] by simp
  finally show ?thesis
    by (simp add: channel_def applyEdgeFilter_def Let_def)
qed

lemma interior_is_stored:
  assumes "1 \<le> x" "x \<le> width img - 2" "1 \<le> y" "y \<le> height img - 2" "c < 4"
  shows "channel (applyEdgeFilter img) x y c
         = (if c = 3 then 255 else toUint8Clamp (pixel_value img (int x) (int y)))"
proof -
  have xy: "x < width img" "y < height img" using assms(1-4) by linarith+
  have "(y * width img + x) * 4 + 3 < 4 * width img * height img"
    using xy by (intro pixel_index_bound) simp_all
  then have "fold (\<lambda>y out. fold (\<lambda>x out. write_pixel img x y out) [1 ..< width img - 1] out)
          [1 ..< height img - 1] (replicate (4 * width img * height img) 0)
          ! ((y * width img + x) * 4 + c)
        = (if c = 3 then 255 else toUint8Clamp (pixel_value img (int x) (int y)))"
    using assms by (intro loops_stored) auto
  then show ?thesis
    by (simp add: channel_def applyEdgeFilter_def Let_def)
qed


lemma read_u8_pixel:
  assumes "wf_image img" "x < width img" "y < height img" "c < 4"
  shows "read_u8 (data img) (idx (int (width img)) (int x) (int y) (int c))
         = Fin (real (channel img x y c))"
proof -
  define n where "n = (y * width img + x) * 4 + c"
  have i: "idx (int (width img)) (int x) (int y) (int c) = int n"
    by (simp add: idx_def n_def)
  have "n < length (data img)"
    using pixel_index_bound [OF assms(2,3,4)] assms(1) by (simp add: wf_image_def n_def)
  then have "read_u8 (data img) (int n) = Fin (real (data img ! n))"
    by (simp add: read_u8_def)
  then show ?thesis
    unfolding i channel_def n_def .
qed

text \<open>
  C4 (as amended). The filter computes no value for the outermost ring: after it, the
  four channels of every border pixel are 0, whatever the frame held there.
\<close>

theorem border_pixels_become_zero:
  assumes "border_pixel img x y" "c < 4"
  shows "channel (applyEdgeFilter img) x y c = 0"
  using assms by (rule border_is_zero)

theorem border_pixels_become_zero_witness:
  "border_pixel white3 0 0 \<and> channel white3 0 0 3 = 255
   \<and> channel (applyEdgeFilter white3) 0 0 3 = 0"
proof -
  have b: "border_pixel white3 0 0" by (simp add: border_pixel_def white3_def)
  have c: "(3::nat) < 4" by simp
  show ?thesis
    using border_pixels_become_zero [OF b c] b
    by (simp add: channel_def white3_def)
qed

text \<open>
  C4 as stated fails: in a white frame of 3 by 3 pixels the border pixel \<open>(2, 1)\<close> holds
  red 255 before the filter and 0 after it.
\<close>

theorem border_unchanged_counterexample:
  "border_pixel white3 2 1 \<and> channel white3 2 1 0 = 255
   \<and> channel (applyEdgeFilter white3) 2 1 0 \<noteq> channel white3 2 1 0"
proof -
  have b: "border_pixel white3 2 1" by (simp add: border_pixel_def white3_def)
  have "channel (applyEdgeFilter white3) 2 1 0 = 0"
    using b by (rule border_is_zero) simp
  moreover have "channel white3 2 1 0 = 255"
    by (simp add: channel_def white3_def)
  ultimately show ?thesis using b by simp
qed

subsection \<open>Edge filter: the reference computation\<close>

text \<open>
  Mirroring a Sobel kernel negates its response, so the exact magnitude does not depend
  on which of the two readings of "convolve" is taken.
\<close>

lemma convolve_is_negated:
  "convolve_kernel sobel_Gx img (Suc x1) (Suc y1) = - apply_kernel sobel_Gx img (Suc x1) (Suc y1)"
  "convolve_kernel sobel_Gy img (Suc x1) (Suc y1) = - apply_kernel sobel_Gy img (Suc x1) (Suc y1)"
  by (simp_all add: convolve_kernel_def apply_kernel_def sobel_Gx_def sobel_Gy_def numeral_3_eq_3)

lemma reference_magnitude_convolution:
  assumes "1 \<le> x" "1 \<le> y"
  shows "reference_magnitude img x y =
     max 0 (min 255 (sqrt ((convolve_kernel sobel_Gx img x y)\<^sup>2
                           + (convolve_kernel sobel_Gy img x y)\<^sup>2)))"
proof -
  obtain x1 where x: "x = Suc x1" using assms(1) by (cases x) simp_all
  obtain y1 where y: "y = Suc y1" using assms(2) by (cases y) simp_all
  show ?thesis
    unfolding x y reference_magnitude_def by (simp only: convolve_is_negated power2_minus)
qed

lemma tap_inside:
  assumes "wf_image img" "0 \<le> x + i" "0 \<le> y + j"
    "nat (x + i) < width img" "nat (y + j) < height img" "k < 9"
  shows "tap img x y j i (sx, sy, k) =
           (num_add sx (num_mul (luminance64 img (nat (x + i)) (nat (y + j)))
                                (Fin (real_of_int (gx ! k)))),
            num_add sy (num_mul (luminance64 img (nat (x + i)) (nat (y + j)))
                                (Fin (real_of_int (gy ! k)))),
            Suc k)"
proof -
  have r: "read_u8 (data img) (idx (int (width img)) (x + i) (y + j) (int c))
           = Fin (real (channel img (nat (x + i)) (nat (y + j)) c))" if "c < 4" for c
    using read_u8_pixel [OF assms(1,4,5) that] assms(2,3) by simp
  have k: "k < length gx" "k < length gy" using assms(6) by (simp_all add: gx_def gy_def)
  show ?thesis
    using r [of 0] r [of 1] r [of 2] k
    by (simp add: tap_def Let_def read_kernel_def luminance64_def del: num_add.simps num_mul.simps)
qed

lemma sobel_sums_interior:
  assumes "wf_image img" "x1 + 2 < width img" "y1 + 2 < height img"
  shows "sobel_sums img (int (Suc x1)) (int (Suc y1)) =
           (apply_kernel64 sobel_Gx img (Suc x1) (Suc y1),
            apply_kernel64 sobel_Gy img (Suc x1) (Suc y1), 9)"
  using assms(2,3)
  by (simp add: sobel_sums_def tap_inside [OF assms(1)] gx_def gy_def apply_kernel64_def
      sobel_Gx_def sobel_Gy_def nat_add_distrib del: num_add.simps num_mul.simps)

lemma pixel_value_interior:
  assumes "wf_image img" "1 \<le> x" "x \<le> width img - 2" "1 \<le> y" "y \<le> height img - 2"
  shows "pixel_value img (int x) (int y) = reference_magnitude64 img x y"
proof -
  obtain x1 where x: "x = Suc x1" using assms(2) by (cases x) simp_all
  obtain y1 where y: "y = Suc y1" using assms(4) by (cases y) simp_all
  have b: "x1 + 2 < width img" "y1 + 2 < height img"
    using assms(3,5) unfolding x y by linarith+
  have s: "sobel_sums img (int x) (int y)
           = (apply_kernel64 sobel_Gx img x y, apply_kernel64 sobel_Gy img x y, 9)"
    unfolding x y using assms(1) b by (rule sobel_sums_interior)
  show ?thesis
    by (simp add: pixel_value_def reference_magnitude64_def s Let_def)
qed

subsection \<open>The sample frame with a tie\<close>

lemma tie3_channels:
  "x < 3 \<Longrightarrow> y < 3 \<Longrightarrow> channel tie3 x y 0 = 0"
  "x < 3 \<Longrightarrow> y < 3 \<Longrightarrow> channel tie3 x y (Suc 0) = (if x = 2 \<and> y = 1 then 40 else 0)"
  "x < 3 \<Longrightarrow> y < 3 \<Longrightarrow> channel tie3 x y 2 = (if x = 2 \<and> y = 1 then 55 else 0)"
proof -
  assume "x < 3" "y < 3"
  then have "(x = 0 \<or> x = 1 \<or> x = 2) \<and> (y = 0 \<or> y = 1 \<or> y = 2)" by linarith
  then show "channel tie3 x y 0 = 0"
    "channel tie3 x y (Suc 0) = (if x = 2 \<and> y = 1 then 40 else 0)"
    "channel tie3 x y 2 = (if x = 2 \<and> y = 1 then 55 else 0)"
    by (auto simp: channel_def tie3_def)
qed

lemma tie3_binary64:
  "reference_magnitude64 tie3 1 1 = Fin (8373880557142015 / 2 ^ 47)"
proof -
  define c1 :: real where "c1 = 5386305154335113 / 2 ^ 54"
  define c2 :: real where "c2 = 2643612981266481 / 2 ^ 52"
  define c3 :: real where "c3 = 8214565720323785 / 2 ^ 56"
  define T :: real where "T = 3304516226583101 / 2 ^ 47"
  define V :: real where "V = 7059392415903253 / 2 ^ 50"
  define G :: real where "G = 8373880557142015 / 2 ^ 48"
  define S :: real where "S = 8373880557142015 / 2 ^ 47"
  define P :: real where "P = 3892546040233983 / 2 ^ 40"
  have f: "fl 0.299 = Fin c1" "fl 0.587 = Fin c2" "fl 0.114 = Fin c3"
    using fl_evalI [of "- 2" "0.299" 5386305154335113]
      fl_evalI [of "- 1" "0.587" 5287225962532962]
      fl_evalI [of "- 4" "0.114" 8214565720323785]
    by (simp_all add: c1_def c2_def c3_def)
  have z: "num_mul (Fin u) (Fin 0) = Fin 0" "num_mul (Fin 0) (Fin u) = Fin 0"
    "num_add (Fin 0) (Fin 0) = Fin 0" for u
    by simp_all
  have mT: "num_mul (Fin c2) (Fin 40) = Fin T"
    using fl_eval [of 4 "c2 * 40"] by (simp add: c2_def T_def rhe_def)
  have mV: "num_mul (Fin c3) (Fin 55) = Fin V"
    using fl_evalI [of 2 "c3 * 55" 7059392415903253] by (simp add: c3_def V_def)
  have rT: "num_add (Fin 0) (Fin T) = Fin T"
    using fl_representable [of 3304516226583101 "- 47"] by (simp add: T_def)
  have aG: "num_add (Fin T) (Fin V) = Fin G"
    using fl_evalI [of 4 "T + V" 8373880557142015] by (simp add: T_def V_def G_def)
  have mS: "num_mul (Fin G) (Fin 2) = Fin S"
    using fl_representable [of 8373880557142015 "- 47"] by (simp add: G_def S_def)
  have rS: "num_add (Fin 0) (Fin S) = Fin S" "num_add (Fin S) (Fin 0) = Fin S"
    using fl_representable [of 8373880557142015 "- 47"] by (simp_all add: S_def)
  have mP: "num_mul (Fin S) (Fin S) = Fin P"
    using fl_evalI [of 11 "S * S" 7785092080467966] by (simp add: S_def P_def)
  have rP: "num_add (Fin P) (Fin 0) = Fin P"
    using fl_representable [of 3892546040233983 "- 40"] by (simp add: P_def)
  have lo: "(8373880557142015 - 1 / 2) / 2 ^ 47 < sqrt P"
    by (rule real_less_rsqrt) (simp add: P_def power2_eq_square)
  have hi: "sqrt P < (8373880557142015 + 1 / 2) / 2 ^ 47"
    by (rule real_less_lsqrt) (simp_all add: P_def power2_eq_square)
  have sq: "math_sqrt (Fin P) = Fin S"
  proof -
    have "fl (sqrt P) = Fin (pow2 (5 - 52) * of_int 8373880557142015)"
      using lo hi by (intro fl_evalI) simp_all
    moreover have "\<not> P < 0" by (simp add: P_def)
    ultimately show ?thesis by (simp add: S_def)
  qed
  have lum: "luminance64 tie3 x y = (if x = 2 \<and> y = 1 then Fin G else Fin 0)"
    if "x < 3" "y < 3" for x y
    unfolding luminance64_def f
    by (simp add: tie3_channels [OF that] z mT mV rT aG del: num_mul.simps num_add.simps)
  have g1: "apply_kernel64 sobel_Gx tie3 1 1 = Fin S"
    by (simp add: apply_kernel64_def sobel_Gx_def lum z mS rS del: num_mul.simps num_add.simps)
  have g2: "apply_kernel64 sobel_Gy tie3 1 1 = Fin 0"
    by (simp add: apply_kernel64_def sobel_Gy_def lum z del: num_mul.simps num_add.simps)
  have "32 < S" "S < 64" by (simp_all add: S_def)
  then have "math_max (Fin 0) (math_min (Fin 255) (Fin S)) = Fin S" by simp
  then have "reference_magnitude64 tie3 1 1 = Fin S"
    unfolding reference_magnitude64_def g1 g2 Let_def by (simp only: mP z rP sq)
  then show ?thesis by (simp only: S_def)
qed

lemma tie3_exact: "reference_magnitude tie3 (Suc 0) (Suc 0) = 119 / 2"
proof -
  have k: "apply_kernel sobel_Gx tie3 (Suc 0) (Suc 0) = 119 / 2"
    "apply_kernel sobel_Gy tie3 (Suc 0) (Suc 0) = 0"
    by (simp_all add: apply_kernel_def sobel_Gx_def sobel_Gy_def numeral_3_eq_3 luminance_def
        channel_def tie3_def)
  show ?thesis by (simp add: reference_magnitude_def k)
qed

lemma tie3_bytes:
  "toUint8Clamp (Fin (8373880557142015 / 2 ^ 47)) = 59" "toUint8Clamp (Fin (119 / 2)) = 60"
  by simp_all

text \<open>
  C6 (as amended). At every interior pixel the three colour channels of the filtered
  frame hold the reference magnitude computed in binary64 (luminance, Sobel kernels
  applied row by row, \<open>sqrt (Gx\<^sup>2 + Gy\<^sup>2)\<close>, clamp to \<open>[0, 255]\<close>), stored as the
  nearest byte, and the alpha channel holds 255.
\<close>

theorem edge_filter_matches_binary64_reference:
  assumes "wf_image img" "1 \<le> x" "x \<le> width img - 2" "1 \<le> y" "y \<le> height img - 2"
  shows "channel (applyEdgeFilter img) x y 0 = toUint8Clamp (reference_magnitude64 img x y)
         \<and> channel (applyEdgeFilter img) x y 1 = toUint8Clamp (reference_magnitude64 img x y)
         \<and> channel (applyEdgeFilter img) x y 2 = toUint8Clamp (reference_magnitude64 img x y)
         \<and> channel (applyEdgeFilter img) x y 3 = 255"
  by (simp add: interior_is_stored [OF assms(2-5)] pixel_value_interior [OF assms])

theorem edge_filter_matches_binary64_reference_witness:
  "wf_image tie3 \<and> (1::nat) \<le> width tie3 - 2 \<and> (1::nat) \<le> height tie3 - 2
   \<and> reference_magnitude64 tie3 1 1 = Fin (8373880557142015 / 2 ^ 47)
   \<and> channel (applyEdgeFilter tie3) 1 1 0 = 59
   \<and> channel (applyEdgeFilter tie3) 1 1 1 = 59
   \<and> channel (applyEdgeFilter tie3) 1 1 2 = 59
   \<and> channel (applyEdgeFilter tie3) 1 1 3 = 255"
proof -
  have w: "wf_image tie3" by (simp add: wf_image_def tie3_def)
  have b: "(1::nat) \<le> 1" "(1::nat) \<le> width tie3 - 2" "(1::nat) \<le> height tie3 - 2"
    by (simp_all add: tie3_def)
  show ?thesis
    using edge_filter_matches_binary64_reference [OF w b(1,2) b(1,3)] w b
    unfolding tie3_binary64 tie3_bytes by simp
qed

text \<open>
  C6 as stated fails when the reference is computed exactly: in the frame \<open>tie3\<close> the
  exact magnitude at \<open>(1, 1)\<close> is 59.5, whose byte is 60, while the filter computes
  59.49999999999999 and stores 59.
\<close>

theorem edge_filter_rounding_counterexample:
  "wf_image tie3 \<and> (1::nat) \<le> width tie3 - 2 \<and> (1::nat) \<le> height tie3 - 2
   \<and> reference_magnitude tie3 1 1 = 59.5
   \<and> toUint8Clamp (Fin (reference_magnitude tie3 1 1)) = 60
   \<and> channel (applyEdgeFilter tie3) 1 1 0 = 59"
proof -
  have w: "wf_image tie3" by (simp add: wf_image_def tie3_def)
  have b: "(1::nat) \<le> 1" "(1::nat) \<le> width tie3 - 2" "(1::nat) \<le> height tie3 - 2"
    by (simp_all add: tie3_def)
  have "pixel_value tie3 (int 1) (int 1) = Fin (8373880557142015 / 2 ^ 47)"
    using pixel_value_interior [OF w b(1,2) b(1,3)] by (simp only: tie3_binary64)
  then have "channel (applyEdgeFilter tie3) 1 1 0 = 59"
    using interior_is_stored [OF b(1,2) b(1,3), of 0] by (simp only: tie3_bytes) simp
  moreover have "reference_magnitude tie3 1 1 = 119 / 2" using tie3_exact by simp
  moreover have "toUint8Clamp (Fin (reference_magnitude tie3 1 1)) = 60"
    unfolding \<open>reference_magnitude tie3 1 1 = 119 / 2\<close> by (rule tie3_bytes)
  ultimately show ?thesis using w b by simp
qed

end
